theory Spec2Isabelle
  imports Complex_Main "HOL-Library.Word" "HOL-Library.Log_Nat"
begin

unbundle bit_operations_syntax

section \<open>JavaScript values, strings and numbers\<close>

text \<open>
  The branding pipeline lives in \<^verbatim>\<open>utils/branding.ts\<close> (colour codec, theme classifier,
  logo resolver) and in the two tools \<^verbatim>\<open>extract-url.ts\<close> and \<^verbatim>\<open>extract-docs.ts\<close>
  (the orchestration and the CSS refinement). It is TypeScript, so at run time every value is
  a JavaScript value. The values that can flow through the colour functions are strings,
  \<^verbatim>\<open>null\<close>, \<^verbatim>\<open>undefined\<close> and, through the property lookup \<^verbatim>\<open>namedColors[lower]\<close>,
  the members that every object literal inherits from \<^verbatim>\<open>Object.prototype\<close>.

  A JavaScript string is a list of UTF-16 code units, and a code unit is a number below
  \<open>2^16\<close>: \<^verbatim>\<open>length\<close>, \<^verbatim>\<open>slice\<close>, \<^verbatim>\<open>substring\<close>, \<^verbatim>\<open>startsWith\<close>, \<^verbatim>\<open>trim\<close> and the
  regular expressions of the code (which have no \<^verbatim>\<open>u\<close> flag) all work on code units. Only
  the string iterator, which array destructuring uses, walks code points: a high surrogate
  followed by a low surrogate is one element of two code units. \<open>utf16\<close> gives the code
  units of a literal. The strings that are only compared and concatenated (URLs, warnings,
  selectors, names of custom properties) are kept as \<^typ>\<open>string\<close>.
\<close>

type_synonym code_unit = nat

type_synonym js_string = "code_unit list"

abbreviation utf16 :: "string \<Rightarrow> js_string" where
  "utf16 s \<equiv> map of_char s"

datatype js_value = Undefined | Null | Str js_string | Function string | ObjectPrototype

fun truthy :: "js_value \<Rightarrow> bool" where
  "truthy Undefined = False"
| "truthy Null = False"
| "truthy (Str s) = (s \<noteq> [])"
| "truthy (Function f) = True"
| "truthy ObjectPrototype = True"

text \<open>\<^verbatim>\<open>a || b\<close> on values.\<close>

definition js_or :: "js_value \<Rightarrow> js_value \<Rightarrow> js_value" where
  "js_or a b = (if truthy a then a else b)"

text \<open>The only exception the modelled code can raise by itself: a method call on a value
  that is not a string (\<^verbatim>\<open>hex.startsWith\<close>), or \<^verbatim>\<open>new URL\<close> on a string that is no URL.\<close>

datatype js_error = TypeError

subsection \<open>Strings\<close>

text \<open>White space and line terminators of ECMAScript: TAB, LF, VT, FF, CR, SP, NBSP, U+1680,
  U+2000 to U+200A, the separators U+2028 and U+2029, U+202F, U+205F, U+3000 and U+FEFF.
  \<^verbatim>\<open>String.prototype.trim\<close>, the \<^verbatim>\<open>\s\<close> class and the number parsers all use this set.\<close>

definition isWhiteSpace :: "code_unit \<Rightarrow> bool" where
  "isWhiteSpace c = (c \<in> {9, 10, 11, 12, 13, 32, 160, 5760, 8232, 8233, 8239, 8287, 12288, 65279}
     \<or> (8192 \<le> c \<and> c \<le> 8202))"

definition trimStart :: "js_string \<Rightarrow> js_string" where
  "trimStart s = dropWhile isWhiteSpace s"

definition trim :: "js_string \<Rightarrow> js_string" where
  "trim s = rev (dropWhile isWhiteSpace (rev (dropWhile isWhiteSpace s)))"

text \<open>
  \<^verbatim>\<open>toLowerCase\<close>: A-Z and the Latin-1 capitals U+00C0..U+00DE (without the multiplication
  sign U+00D7) move up by 32, and the Kelvin sign U+212A becomes \<^verbatim>\<open>k\<close>. That is JavaScript's
  result on every code unit below 256 and on every unit whose lower case is an ASCII
  character. The lower case of the other units from 256 on is not modelled, they are kept:
  JavaScript maps them to text with a unit that is not ASCII (U+0130 to \<^verbatim>\<open>i\<close> and U+0307),
  and the one use of the result, the lookup in a table with ASCII keys, does not tell the
  difference.
\<close>

definition toLowerCaseChar :: "code_unit \<Rightarrow> code_unit" where
  "toLowerCaseChar n =
    (if (65 \<le> n \<and> n \<le> 90) \<or> (192 \<le> n \<and> n \<le> 222 \<and> n \<noteq> 215) then n + 32
     else if n = 8490 then 107 else n)"

definition toLowerCase :: "js_string \<Rightarrow> js_string" where
  "toLowerCase s = map toLowerCaseChar s"

definition startsWith :: "'a list \<Rightarrow> 'a list \<Rightarrow> bool" where
  "startsWith s p = (take (length p) s = p)"

definition padStart :: "nat \<Rightarrow> code_unit \<Rightarrow> js_string \<Rightarrow> js_string" where
  "padStart n c s = replicate (n - length s) c @ s"

text \<open>The string iterator, which \<^verbatim>\<open>const [, r, g, b] = trimmed\<close> uses: the code points of a
  string, each as the one or two code units that make it up. A surrogate without its partner
  is an element of its own.\<close>

definition isHighSurrogate :: "code_unit \<Rightarrow> bool" where
  "isHighSurrogate c = (55296 \<le> c \<and> c \<le> 56319)"

definition isLowSurrogate :: "code_unit \<Rightarrow> bool" where
  "isLowSurrogate c = (56320 \<le> c \<and> c \<le> 57343)"

fun codePoints :: "js_string \<Rightarrow> js_string list" where
  "codePoints [] = []"
| "codePoints [x] = [x] # []"
| "codePoints (x # y # r) =
     (if isHighSurrogate x \<and> isLowSurrogate y then [x, y] # codePoints r
      else [x] # codePoints (y # r))"

text \<open>\<^verbatim>\<open>subject.replace(pattern, replacement)\<close> with a string pattern: the first occurrence only.\<close>

fun replaceFirst :: "'a list \<Rightarrow> 'a list \<Rightarrow> 'a list \<Rightarrow> 'a list" where
  "replaceFirst pat rep [] = (if pat = [] then rep else [])"
| "replaceFirst pat rep (x # xs) =
     (if take (length pat) (x # xs) = pat then rep @ drop (length pat) (x # xs)
      else x # replaceFirst pat rep xs)"

subsection \<open>Numbers: IEEE 754 binary64\<close>

text \<open>
  A JavaScript number is a double. The finite doubles are rationals; \<open>fl\<close> rounds a rational
  to the nearest double (53 significant bits, ties to even, gradual underflow below
  \<open>2 powi (-1022)\<close>), and \<open>roundToDouble\<close> adds the overflow to the infinities. Every
  arithmetic operation of the code is the exact operation followed by this rounding. The two
  zeros are identified: the code never divides by a computed zero and prints both as
  \<^verbatim>\<open>0\<close>, so the sign of zero is not observable in it.
\<close>

datatype number = Fin rat | PosInf | NegInf | NaN

text \<open>\<open>expo x\<close> is \<open>\<lfloor>log\<^sub>2 \<bar>x\<bar>\<rfloor>\<close> for \<open>x \<noteq> 0\<close>, computed from the bit lengths of numerator
  and denominator.\<close>

definition expo :: "rat \<Rightarrow> int" where
  "expo x = (let (n, d) = quotient_of \<bar>x\<bar>;
                 k = bitlen n - bitlen d
             in if 2 powi k \<le> \<bar>x\<bar> then k else k - 1)"

definition roundHalfEven :: "rat \<Rightarrow> int" where
  "roundHalfEven m = (let f = \<lfloor>m\<rfloor>; r = m - of_int f
     in if r < 1 / 2 then f else if 1 / 2 < r then f + 1 else if even f then f else f + 1)"

definition fl :: "rat \<Rightarrow> rat" where
  "fl x = (if x = 0 then 0 else
     (let q = max (expo x - 52) (- 1074) in of_int (roundHalfEven (x / 2 powi q)) * 2 powi q))"

definition roundToDouble :: "rat \<Rightarrow> number" where
  "roundToDouble x = (let y = fl x in
     if 2 ^ 1024 \<le> y then PosInf else if y \<le> - (2 ^ 1024) then NegInf else Fin y)"

text \<open>A numeric literal of the source, such as \<^verbatim>\<open>0.6\<close>, denotes the double nearest to it.\<close>

definition lit :: "rat \<Rightarrow> number" where
  "lit x = roundToDouble x"

fun signOf :: "number \<Rightarrow> int" where
  "signOf (Fin a) = (if a = 0 then 0 else if 0 < a then 1 else - 1)"
| "signOf PosInf = 1"
| "signOf NegInf = - 1"
| "signOf NaN = 0"

definition infOfSign :: "int \<Rightarrow> number" where
  "infOfSign s = (if s = 0 then NaN else if 0 < s then PosInf else NegInf)"

fun num_mul :: "number \<Rightarrow> number \<Rightarrow> number" where
  "num_mul NaN y = NaN"
| "num_mul x NaN = NaN"
| "num_mul (Fin a) (Fin b) = roundToDouble (a * b)"
| "num_mul x y = infOfSign (signOf x * signOf y)"

fun num_add :: "number \<Rightarrow> number \<Rightarrow> number" where
  "num_add NaN y = NaN"
| "num_add x NaN = NaN"
| "num_add (Fin a) (Fin b) = roundToDouble (a + b)"
| "num_add PosInf NegInf = NaN"
| "num_add NegInf PosInf = NaN"
| "num_add (Fin a) y = y"
| "num_add x y = x"

fun num_neg :: "number \<Rightarrow> number" where
  "num_neg (Fin a) = Fin (- a)"
| "num_neg PosInf = NegInf"
| "num_neg NegInf = PosInf"
| "num_neg NaN = NaN"

definition num_sub :: "number \<Rightarrow> number \<Rightarrow> number" where
  "num_sub x y = num_add x (num_neg y)"

text \<open>Division; every divisor in the code is a non-zero constant (360, 100, 2, 3, 6).\<close>

fun num_div :: "number \<Rightarrow> number \<Rightarrow> number" where
  "num_div NaN y = NaN"
| "num_div x NaN = NaN"
| "num_div (Fin a) (Fin b) = (if b = 0 then infOfSign (signOf (Fin a)) else roundToDouble (a / b))"
| "num_div (Fin a) y = Fin 0"
| "num_div x (Fin b) = infOfSign (signOf x * (if b < 0 then - 1 else 1))"
| "num_div x y = NaN"

fun num_less :: "number \<Rightarrow> number \<Rightarrow> bool" where
  "num_less NaN y = False"
| "num_less x NaN = False"
| "num_less (Fin a) (Fin b) = (a < b)"
| "num_less x NegInf = False"
| "num_less PosInf y = False"
| "num_less x y = True"

definition isNaN :: "number \<Rightarrow> bool" where
  "isNaN x = (x = NaN)"

text \<open>\<^verbatim>\<open>Math.round\<close>: the nearest integer, a tie going up.\<close>

fun Math_round :: "number \<Rightarrow> number" where
  "Math_round (Fin x) = Fin (of_int \<lfloor>x + 1 / 2\<rfloor>)"
| "Math_round x = x"

definition hexDigit :: "nat \<Rightarrow> code_unit" where
  "hexDigit d = utf16 ''0123456789abcdef'' ! d"

fun toHex :: "nat \<Rightarrow> js_string" where
  "toHex n = (if n < 16 then [hexDigit n] else toHex (n div 16) @ [hexDigit (n mod 16)])"

declare toHex.simps [simp del]

text \<open>\<^verbatim>\<open>Number.prototype.toString(16)\<close>. The code applies it to results of
  \<^verbatim>\<open>Math.round\<close> and \<^verbatim>\<open>parseInt\<close> only, which are integers, infinite or NaN.\<close>

fun toString16 :: "number \<Rightarrow> js_string" where
  "toString16 (Fin x) = (if x < 0 then utf16 ''-'' @ toHex (nat \<lfloor>- x\<rfloor>) else toHex (nat \<lfloor>x\<rfloor>))"
| "toString16 PosInf = utf16 ''Infinity''"
| "toString16 NegInf = utf16 ''-Infinity''"
| "toString16 NaN = utf16 ''NaN''"

text \<open>\<^verbatim>\<open>ToInt32\<close>, the conversion the operators \<^verbatim>\<open>>>\<close> and \<^verbatim>\<open>&\<close> apply: truncate, then
  wrap modulo \<open>2^32\<close>.\<close>

fun toInt32 :: "number \<Rightarrow> 32 word" where
  "toInt32 (Fin x) = word_of_int (if 0 \<le> x then \<lfloor>x\<rfloor> else - \<lfloor>- x\<rfloor>)"
| "toInt32 x = 0"

subsection \<open>parseInt and parseFloat\<close>

definition digitValue :: "code_unit \<Rightarrow> nat option" where
  "digitValue n =
    (if 48 \<le> n \<and> n \<le> 57 then Some (n - 48)
     else if 97 \<le> n \<and> n \<le> 122 then Some (n - 87)
     else if 65 \<le> n \<and> n \<le> 90 then Some (n - 55)
     else None)"

definition isRadixDigit :: "nat \<Rightarrow> code_unit \<Rightarrow> bool" where
  "isRadixDigit R c = (case digitValue c of Some v \<Rightarrow> v < R | None \<Rightarrow> False)"

definition digitsValue :: "nat \<Rightarrow> js_string \<Rightarrow> int" where
  "digitsValue R z =
     foldl (\<lambda>acc c. acc * int R + (case digitValue c of Some v \<Rightarrow> int v | None \<Rightarrow> 0)) 0 z"

text \<open>
  \<^verbatim>\<open>parseInt(input, radix)\<close> as ECMAScript defines it: skip leading white space, read a sign,
  strip a \<^verbatim>\<open>0x\<close> prefix when the radix is 16 or absent, then take the longest prefix of
  digits of the radix. No digit at all gives NaN; characters after the digits are ignored.
\<close>

definition parseInt :: "js_string \<Rightarrow> nat option \<Rightarrow> number" where
  "parseInt input radix =
    (let s0 = trimStart input;
         neg = (s0 \<noteq> [] \<and> hd s0 = of_char CHR ''-'');
         s1 = (if s0 \<noteq> [] \<and> (hd s0 = of_char CHR ''+'' \<or> hd s0 = of_char CHR ''-'') then tl s0 else s0);
         R0 = (case radix of None \<Rightarrow> 0 | Some r \<Rightarrow> r)
     in if R0 \<noteq> 0 \<and> (R0 < 2 \<or> 36 < R0) then NaN
        else let stripPrefix = (R0 = 0 \<or> R0 = 16);
                 hasPrefix = (stripPrefix \<and> (take 2 s1 = utf16 ''0x'' \<or> take 2 s1 = utf16 ''0X''));
                 s2 = (if hasPrefix then drop 2 s1 else s1);
                 R = (if hasPrefix then 16 else if R0 = 0 then 10 else R0);
                 z = takeWhile (isRadixDigit R) s2
             in if z = [] then NaN
                else roundToDouble (if neg then - of_int (digitsValue R z)
                                    else of_int (digitsValue R z)))"

text \<open>
  \<^verbatim>\<open>parseFloat\<close> on the strings the code passes to it, which are runs of digits and dots
  (the capture \<^verbatim>\<open>[\d.]+\<close>): the longest prefix that is a decimal literal, NaN when there
  is none.
\<close>

definition parseFloat :: "js_string \<Rightarrow> number" where
  "parseFloat input =
    (let s = trimStart input;
         ip = takeWhile (isRadixDigit 10) s;
         fp = (case dropWhile (isRadixDigit 10) s of
                 [] \<Rightarrow> []
               | c # r \<Rightarrow> if c = of_char CHR ''.'' then takeWhile (isRadixDigit 10) r else [])
     in if ip = [] \<and> fp = [] then NaN
        else roundToDouble (of_int (digitsValue 10 ip) + of_int (digitsValue 10 fp) / 10 ^ length fp))"

subsection \<open>The regular expressions of the colour parser\<close>

text \<open>
  \<^verbatim>\<open>String.prototype.match\<close> with a non-global pattern tries every start position from
  left to right and, at each, runs a backtracking matcher in which \<^verbatim>\<open>?\<close>, \<^verbatim>\<open>*\<close> and
  \<^verbatim>\<open>+\<close> are greedy. The two patterns of the code are sequences of literal characters,
  one optional character, starred classes and captured \<^verbatim>\<open>+\<close> groups of a class;
  \<open>CapMore\<close> is the matcher inside such a group, holding what the group has consumed.
\<close>

datatype char_class = Space | Digit | DigitOrDot

fun inClass :: "char_class \<Rightarrow> code_unit \<Rightarrow> bool" where
  "inClass Space c = isWhiteSpace c"
| "inClass Digit c = isRadixDigit 10 c"
| "inClass DigitOrDot c = (isRadixDigit 10 c \<or> c = of_char CHR ''.'')"

datatype re_item = Lit code_unit | Opt code_unit | Star char_class | CapPlus char_class
  | CapMore char_class js_string

fun re_match :: "re_item list \<Rightarrow> js_string \<Rightarrow> js_string list \<Rightarrow> js_string list option" where
  "re_match [] s caps = Some caps"
| "re_match (Lit c # r) [] caps = None"
| "re_match (Lit c # r) (x # xs) caps = (if x = c then re_match r xs caps else None)"
| "re_match (Opt c # r) [] caps = re_match r [] caps"
| "re_match (Opt c # r) (x # xs) caps =
     (if x = c
      then (case re_match r xs caps of Some m \<Rightarrow> Some m | None \<Rightarrow> re_match r (x # xs) caps)
      else re_match r (x # xs) caps)"
| "re_match (Star k # r) [] caps = re_match r [] caps"
| "re_match (Star k # r) (x # xs) caps =
     (if inClass k x
      then (case re_match (Star k # r) xs caps of Some m \<Rightarrow> Some m
            | None \<Rightarrow> re_match r (x # xs) caps)
      else re_match r (x # xs) caps)"
| "re_match (CapPlus k # r) [] caps = None"
| "re_match (CapPlus k # r) (x # xs) caps =
     (if inClass k x then re_match (CapMore k [x] # r) xs caps else None)"
| "re_match (CapMore k acc # r) [] caps = re_match r [] (caps @ [acc])"
| "re_match (CapMore k acc # r) (x # xs) caps =
     (if inClass k x
      then (case re_match (CapMore k (acc @ [x]) # r) xs caps of Some m \<Rightarrow> Some m
            | None \<Rightarrow> re_match r (x # xs) (caps @ [acc]))
      else re_match r (x # xs) (caps @ [acc]))"

fun re_search :: "re_item list \<Rightarrow> js_string \<Rightarrow> js_string list option" where
  "re_search r [] = re_match r [] []"
| "re_search r (x # xs) =
     (case re_match r (x # xs) [] of Some m \<Rightarrow> Some m | None \<Rightarrow> re_search r xs)"

text \<open>\<^verbatim>\<open>/rgba?\(\s*(\d+)\s*,\s*(\d+)\s*,\s*(\d+)/\<close>\<close>

definition rgbRegex :: "re_item list" where
  "rgbRegex = map Lit (utf16 ''rgb'') @ [Opt (of_char CHR ''a''), Lit (of_char CHR ''(''),
     Star Space, CapPlus Digit, Star Space, Lit (of_char CHR '',''),
     Star Space, CapPlus Digit, Star Space, Lit (of_char CHR '',''),
     Star Space, CapPlus Digit]"

text \<open>\<^verbatim>\<open>/hsla?\(\s*([\d.]+)\s*,\s*([\d.]+)%\s*,\s*([\d.]+)%/\<close>\<close>

definition hslRegex :: "re_item list" where
  "hslRegex = map Lit (utf16 ''hsl'') @ [Opt (of_char CHR ''a''), Lit (of_char CHR ''(''),
     Star Space, CapPlus DigitOrDot, Star Space, Lit (of_char CHR '',''),
     Star Space, CapPlus DigitOrDot, Lit (of_char CHR ''%''), Star Space, Lit (of_char CHR '',''),
     Star Space, CapPlus DigitOrDot, Lit (of_char CHR ''%'')]"

section \<open>The colour codec (utils/branding.ts)\<close>

subsection \<open>darkenHex\<close>

text \<open>One channel of the output: \<^verbatim>\<open>Math.round(c).toString(16).padStart(2, '0')\<close>.\<close>

definition channelHex :: "number \<Rightarrow> js_string" where
  "channelHex c = padStart 2 (of_char CHR ''0'') (toString16 (Math_round c))"

text \<open>
  \<^verbatim>\<open>darkenHex(hex, factor)\<close>. The parameter is typed \<^verbatim>\<open>string\<close>, but the orchestrators
  pass it what \<open>rgbaToHex\<close> returned; on a value without \<^verbatim>\<open>startsWith\<close> the call raises.
\<close>

fun darkenHex :: "js_value \<Rightarrow> number \<Rightarrow> js_error + js_string" where
  "darkenHex (Str hex) factor =
     (if \<not> startsWith hex (utf16 ''#'') \<or> length hex < 7 then Inr (utf16 ''#003D99'')
      else let clean = replaceFirst (utf16 ''#'') [] hex;
               r = parseInt (take 2 clean) (Some 16);
               g = parseInt (take 2 (drop 2 clean)) (Some 16);
               b = parseInt (take 2 (drop 4 clean)) (Some 16)
           in if isNaN r \<or> isNaN g \<or> isNaN b then Inr (utf16 ''#003D99'')
              else Inr (utf16 ''#'' @ concat (map (\<lambda>c. channelHex (num_mul c factor)) [r, g, b])))"
| "darkenHex v factor = Inl TypeError"

subsection \<open>hslToHex\<close>

definition hue2rgb :: "number \<Rightarrow> number \<Rightarrow> number \<Rightarrow> number" where
  "hue2rgb p q t0 =
    (let t1 = (if num_less t0 (Fin 0) then num_add t0 (Fin 1) else t0);
         t = (if num_less (Fin 1) t1 then num_sub t1 (Fin 1) else t1)
     in if num_less t (num_div (Fin 1) (Fin 6))
          then num_add p (num_mul (num_mul (num_sub q p) (Fin 6)) t)
        else if num_less t (num_div (Fin 1) (Fin 2)) then q
        else if num_less t (num_div (Fin 2) (Fin 3))
          then num_add p (num_mul (num_mul (num_sub q p) (num_sub (num_div (Fin 2) (Fin 3)) t)) (Fin 6))
        else p)"

definition hslToHex :: "number \<Rightarrow> number \<Rightarrow> number \<Rightarrow> js_string" where
  "hslToHex h s l =
    (let rgb =
       (if s = Fin 0 then [l, l, l]
        else let q = (if num_less l (lit (5 / 10)) then num_mul l (num_add (Fin 1) s)
                      else num_sub (num_add l s) (num_mul l s));
                 p = num_sub (num_mul (Fin 2) l) q
             in [hue2rgb p q (num_add h (num_div (Fin 1) (Fin 3))),
                 hue2rgb p q h,
                 hue2rgb p q (num_sub h (num_div (Fin 1) (Fin 3)))])
     in utf16 ''#'' @ concat (map (\<lambda>c. channelHex (num_mul c (Fin 255))) rgb))"

subsection \<open>rgbaToHex\<close>

definition namedColors :: "(js_string \<times> js_string) list" where
  "namedColors = map (\<lambda>(name, hex). (utf16 name, utf16 hex))
    [(''white'', ''#FFFFFF''), (''black'', ''#000000''), (''red'', ''#FF0000''), (''green'', ''#008000''),
     (''blue'', ''#0000FF''), (''yellow'', ''#FFFF00''), (''cyan'', ''#00FFFF''), (''magenta'', ''#FF00FF''),
     (''orange'', ''#FFA500''), (''purple'', ''#800080''), (''pink'', ''#FFC0CB''), (''gray'', ''#808080''),
     (''grey'', ''#808080''), (''navy'', ''#000080''), (''teal'', ''#008080''), (''maroon'', ''#800000''),
     (''lime'', ''#00FF00''), (''aqua'', ''#00FFFF''), (''silver'', ''#C0C0C0''), (''olive'', ''#808000''),
     (''coral'', ''#FF7F50''), (''salmon'', ''#FA8072''), (''tomato'', ''#FF6347''), (''gold'', ''#FFD700''),
     (''indigo'', ''#4B0082''), (''violet'', ''#EE82EE''), (''rebeccapurple'', ''#663399''),
     (''crimson'', ''#DC143C''), (''darkblue'', ''#00008B''), (''darkgreen'', ''#006400''),
     (''steelblue'', ''#4682B4''), (''slategray'', ''#708090''), (''dodgerblue'', ''#1E90FF''),
     (''royalblue'', ''#4169E1''), (''midnightblue'', ''#191970'')]"

text \<open>
  \<^verbatim>\<open>namedColors\<close> is an object literal, so \<^verbatim>\<open>namedColors[key]\<close> finds the members of
  \<^verbatim>\<open>Object.prototype\<close> when the table has no entry for the key.
\<close>

definition objectPrototype :: "(js_string \<times> js_value) list" where
  "objectPrototype = map (\<lambda>(name, member). (utf16 name, member))
    [(''constructor'', Function ''Object''),
     (''__proto__'', ObjectPrototype),
     (''hasOwnProperty'', Function ''hasOwnProperty''),
     (''isPrototypeOf'', Function ''isPrototypeOf''),
     (''propertyIsEnumerable'', Function ''propertyIsEnumerable''),
     (''toLocaleString'', Function ''toLocaleString''),
     (''toString'', Function ''toString''),
     (''valueOf'', Function ''valueOf''),
     (''__defineGetter__'', Function ''__defineGetter__''),
     (''__defineSetter__'', Function ''__defineSetter__''),
     (''__lookupGetter__'', Function ''__lookupGetter__''),
     (''__lookupSetter__'', Function ''__lookupSetter__'')]"

definition getProperty :: "(js_string \<times> js_string) list \<Rightarrow> js_string \<Rightarrow> js_value" where
  "getProperty obj key =
    (case map_of obj key of
       Some v \<Rightarrow> Str v
     | None \<Rightarrow> (case map_of objectPrototype key of Some v \<Rightarrow> v | None \<Rightarrow> Undefined))"

text \<open>An element that array destructuring binds and a template literal prints: the
  element of that index if the iterator yields so many, else \<^verbatim>\<open>undefined\<close>, which a template
  literal prints as the word.\<close>

definition templateElement :: "js_string list \<Rightarrow> nat \<Rightarrow> js_string" where
  "templateElement elements i = (if i < length elements then elements ! i else utf16 ''undefined'')"

text \<open>
  \<^verbatim>\<open>rgbaToHex(color)\<close>. The first test, \<^verbatim>\<open>!color || typeof color !== 'string'\<close>, sends
  the empty string and every value that is not a string to the default. A string that starts
  with \<^verbatim>\<open>#\<close> and has four code units is destructured, \<^verbatim>\<open>const [, r, g, b] = trimmed\<close>, which
  walks its code points, and \<^verbatim>\<open>`#${r}${r}${g}${g}${b}${b}`\<close> is returned.
\<close>

fun rgbaToHex :: "js_value \<Rightarrow> js_value" where
  "rgbaToHex (Str color) =
    (if color = [] then Str (utf16 ''#0066FF'')
     else let trimmed = trim color in
       if startsWith trimmed (utf16 ''#'') then
         (if length trimmed = 4
          then (let r = templateElement (codePoints trimmed) 1;
                    g = templateElement (codePoints trimmed) 2;
                    b = templateElement (codePoints trimmed) 3
                in Str (utf16 ''#'' @ r @ r @ g @ g @ b @ b))
          else Str (take 7 trimmed))
       else case re_search rgbRegex trimmed of
         Some rgbMatch \<Rightarrow>
           Str (utf16 ''#'' @ concat (map (\<lambda>c. padStart 2 (of_char CHR ''0'') (toString16 (parseInt c None))) rgbMatch))
       | None \<Rightarrow>
          (case re_search hslRegex trimmed of
             Some hslMatch \<Rightarrow>
               (let h = num_div (parseFloat (hslMatch ! 0)) (Fin 360);
                    s = num_div (parseFloat (hslMatch ! 1)) (Fin 100);
                    l = num_div (parseFloat (hslMatch ! 2)) (Fin 100)
                in Str (hslToHex h s l))
           | None \<Rightarrow>
               (let lower = toLowerCase trimmed in
                if truthy (getProperty namedColors lower) then getProperty namedColors lower
                else Str (utf16 ''#0066FF''))))"
| "rgbaToHex v = Str (utf16 ''#0066FF'')"

section \<open>The theme classifier (utils/branding.ts)\<close>

record BrandColors =
  primary :: js_value
  secondary :: js_value
  accent :: js_value
  background :: js_value

datatype theme = light | dark

text \<open>\<^verbatim>\<open>(rgb >> n) & 0xff\<close> on the 32-bit integer of \<^verbatim>\<open>rgb\<close>.\<close>

definition channel :: "32 word \<Rightarrow> nat \<Rightarrow> number" where
  "channel rgb n = Fin (of_int (sint (signed_drop_bit n rgb AND 255)))"

definition luminance :: "number \<Rightarrow> number \<Rightarrow> number \<Rightarrow> number" where
  "luminance r g b =
     num_add (num_add (num_mul (lit (299 / 1000)) r) (num_mul (lit (587 / 1000)) g))
             (num_mul (lit (114 / 1000)) b)"

fun detectTheme :: "BrandColors \<Rightarrow> js_error + theme" where
  "detectTheme colrs =
    (case background colrs of
       Str bgColor \<Rightarrow>
         (if bgColor = [] \<or> \<not> startsWith bgColor (utf16 ''#'') \<or> length bgColor < 7 then Inr light
          else let rgb = parseInt (drop 1 bgColor) (Some 16) in
            if isNaN rgb then Inr light
            else let r = channel (toInt32 rgb) 16;
                     g = channel (toInt32 rgb) 8;
                     b = channel (toInt32 rgb) 0
                 in Inr (if num_less (Fin 128) (luminance r g b) then light else dark))
     | Undefined \<Rightarrow> Inr light
     | Null \<Rightarrow> Inr light
     | Function f \<Rightarrow> Inl TypeError
     | ObjectPrototype \<Rightarrow> Inl TypeError)"

section \<open>The logo resolver (utils/branding.ts)\<close>

datatype quality = high | medium | favicon

record LogoResult =
  url :: string
  quality :: quality

text \<open>
  \<^verbatim>\<open>axios.head\<close> either resolves with a response that has a status, or rejects (time-out,
  network error, a status outside 2xx). The network is a parameter: it answers the
  \<open>n\<close>-th request of a run for a URL. The resolver returns, with its result, the warnings
  list after the call and the requests it made, in order.
\<close>

datatype head_response = Responds nat | Rejects

type_synonym network = "nat \<Rightarrow> string \<Rightarrow> head_response"

definition commonPaths :: "string \<Rightarrow> string list" where
  "commonPaths origin =
     [origin @ ''/logo.svg'', origin @ ''/logo.png'',
      origin @ ''/assets/logo.svg'', origin @ ''/assets/logo.png'',
      origin @ ''/images/logo.svg'', origin @ ''/images/logo.png'']"

fun probeCommonPaths :: "network \<Rightarrow> string list \<Rightarrow> string list \<Rightarrow> string option \<times> string list" where
  "probeCommonPaths net [] requests = (None, requests)"
| "probeCommonPaths net (logoPath # paths) requests =
     (if net (length requests) logoPath = Responds 200 then (Some logoPath, requests @ [logoPath])
      else probeCommonPaths net paths (requests @ [logoPath]))"

text \<open>The three strings the resolver builds from the domain: the URL of the Clearbit logo
  service, the URL of Google's favicon service, and the warning of the last tier.\<close>

definition clearbitUrl :: "string \<Rightarrow> string" where
  "clearbitUrl domain = ''https://logo.clearbit.com/'' @ domain"

definition faviconUrl :: "string \<Rightarrow> string" where
  "faviconUrl domain = ''https://www.google.com/s2/favicons?domain='' @ domain @ ''&sz=256''"

definition faviconWarning :: "string \<Rightarrow> string" where
  "faviconWarning domain =
     ''No high-quality logo found for '' @ domain @ ''. Using Google favicon (256px).''"

text \<open>
  \<^verbatim>\<open>extractLogoFromCloud(domain, fullUrl, warnings)\<close>. \<open>originOf\<close> stands for
  \<^verbatim>\<open>new URL(fullUrl).origin\<close>, which raises a TypeError on a string that is not a URL.
\<close>

definition extractLogoFromCloud ::
  "(string \<Rightarrow> string option) \<Rightarrow> network \<Rightarrow> string \<Rightarrow> string \<Rightarrow> string list
     \<Rightarrow> js_error + (LogoResult \<times> string list \<times> string list)" where
  "extractLogoFromCloud originOf net domain fullUrl warnings =
    (if net 0 (clearbitUrl domain) = Responds 200
     then Inr (\<lparr>url = clearbitUrl domain, quality = high\<rparr>, warnings, [clearbitUrl domain])
     else case originOf fullUrl of
       None \<Rightarrow> Inl TypeError
     | Some origin \<Rightarrow>
        (case probeCommonPaths net (commonPaths origin) [clearbitUrl domain] of
           (Some logoPath, requests) \<Rightarrow>
             Inr (\<lparr>url = logoPath, quality = medium\<rparr>, warnings, requests)
         | (None, requests) \<Rightarrow>
             Inr (\<lparr>url = faviconUrl domain, quality = favicon\<rparr>,
                  warnings @ [faviconWarning domain], requests)))"

section \<open>The branding orchestration (tools/extract-url.ts, tools/extract-docs.ts)\<close>

text \<open>
  The browser, the screenshot and the pixel analysis (\<^verbatim>\<open>extractColorsFromScreenshot\<close> of
  \<^verbatim>\<open>utils/color-extraction.ts\<close>) are outside the modelled code. Their results are
  parameters: the palette the pixel analysis returned, and the page as the in-page scripts
  see it, that is the computed custom properties of the root element and the computed
  styles of the elements a selector finds, in document order. A page of \<open>None\<close> is a
  \<^verbatim>\<open>page.evaluate\<close> that rejected; the code catches it and goes on with all signals null.
\<close>

record BrandingResult =
  logo :: LogoResult
  colors :: BrandColors
  font :: string
  theme :: theme

record element =
  backgroundColor :: js_string
  color :: js_string

record page =
  getPropertyValue :: "string \<Rightarrow> js_string"
  querySelectorAll :: "string \<Rightarrow> element list"

text \<open>The helper \<^verbatim>\<open>tryProps\<close> and the two loops over buttons and links, as both tools
  write them inside \<^verbatim>\<open>page.evaluate\<close>.\<close>

fun tryProps :: "(string \<Rightarrow> js_string) \<Rightarrow> string list \<Rightarrow> js_value" where
  "tryProps styles [] = Null"
| "tryProps styles (name # names) =
     (let val = trim (styles name) in if val \<noteq> [] then Str val else tryProps styles names)"

fun firstButtonBg :: "element list \<Rightarrow> js_value" where
  "firstButtonBg [] = Null"
| "firstButtonBg (btn # btns) =
     (let bg = backgroundColor btn in
      if bg \<noteq> [] \<and> bg \<noteq> utf16 ''rgba(0, 0, 0, 0)'' \<and> bg \<noteq> utf16 ''transparent''
         \<and> bg \<noteq> utf16 ''rgb(255, 255, 255)''
      then Str bg else firstButtonBg btns)"

fun firstLinkColor :: "element list \<Rightarrow> js_value" where
  "firstLinkColor [] = Null"
| "firstLinkColor (link # links) =
     (let c = color link in
      if c \<noteq> [] \<and> c \<noteq> utf16 ''rgb(0, 0, 0)'' \<and> c \<noteq> utf16 ''rgb(255, 255, 255)''
      then Str c else firstLinkColor links)"

text \<open>The literal \<^verbatim>\<open>0.6\<close> of the three calls \<^verbatim>\<open>darkenHex(..., 0.6)\<close>.\<close>

definition darkenFactor :: number where
  "darkenFactor = lit (6 / 10)"

subsection \<open>extract-docs.ts: extractBrandingWithCssColors\<close>

record css_colors =
  css_primary :: js_value
  css_accent :: js_value

text \<open>The three signals the in-page script of this tool collects; it looks at no link.\<close>

definition docsPrimaryVar :: "page \<Rightarrow> js_value" where
  "docsPrimaryVar p = tryProps (getPropertyValue p)
     [''--primary'', ''--primary-color'', ''--brand-color'', ''--color-primary'',
      ''--theme-primary'', ''--main-color'', ''--docs-color-primary'']"

definition docsAccentVar :: "page \<Rightarrow> js_value" where
  "docsAccentVar p = tryProps (getPropertyValue p)
     [''--accent'', ''--accent-color'', ''--color-accent'', ''--secondary'',
      ''--secondary-color'', ''--theme-accent'', ''--docs-color-secondary'']"

definition docsButtonBg :: "page \<Rightarrow> js_value" where
  "docsButtonBg p = firstButtonBg (take 10 (querySelectorAll p
     ''button, a.btn, [class*=\"button\"], [class*=\"btn\"]''))"

text \<open>The value of \<^verbatim>\<open>cssColors\<close>: the script returns
  \<^verbatim>\<open>{ primary: primary || buttonBg, accent }\<close>.\<close>

definition docsCssColors :: "page option \<Rightarrow> css_colors" where
  "docsCssColors pg =
    (case pg of
       None \<Rightarrow> \<lparr>css_primary = Null, css_accent = Null\<rparr>
     | Some p \<Rightarrow> \<lparr>css_primary = js_or (docsPrimaryVar p) (docsButtonBg p),
                  css_accent = docsAccentVar p\<rparr>)"

text \<open>The override of the screenshot colours, lines \<^verbatim>\<open>if (cssColors.primary) ...\<close> to
  \<^verbatim>\<open>colors.accent = rgbaToHex(cssColors.accent)\<close>.\<close>

definition docsOverride :: "BrandColors \<Rightarrow> css_colors \<Rightarrow> js_error + BrandColors" where
  "docsOverride colrs css =
    (case (if truthy (css_primary css)
           then (let c1 = colrs\<lparr>primary := rgbaToHex (css_primary css)\<rparr> in
                 case darkenHex (primary c1) darkenFactor of
                   Inl e \<Rightarrow> Inl e
                 | Inr d \<Rightarrow> Inr (c1\<lparr>secondary := Str d\<rparr>))
           else Inr colrs) of
       Inl e \<Rightarrow> Inl e
     | Inr c2 \<Rightarrow>
         Inr (if truthy (css_accent css) then c2\<lparr>accent := rgbaToHex (css_accent css)\<rparr> else c2))"

text \<open>
  \<^verbatim>\<open>extractBrandingWithCssColors(url, domain, warnings)\<close>: the logo, then the palette of
  the screenshot, refined by the CSS colours, then the theme. The result carries the
  warnings list and the requests made.
\<close>

definition extractBrandingWithCssColors ::
  "(string \<Rightarrow> string option) \<Rightarrow> network \<Rightarrow> page option \<Rightarrow> BrandColors
     \<Rightarrow> string \<Rightarrow> string \<Rightarrow> string list
     \<Rightarrow> js_error + (BrandingResult \<times> string list \<times> string list)" where
  "extractBrandingWithCssColors originOf net pg screenshotColors pageUrl domain warnings =
    (let cleanDomain = replaceFirst ''www.'' [] domain in
     case extractLogoFromCloud originOf net cleanDomain pageUrl warnings of
       Inl e \<Rightarrow> Inl e
     | Inr (logoResult, warnings', requests) \<Rightarrow>
        (case docsOverride screenshotColors (docsCssColors pg) of
           Inl e \<Rightarrow> Inl e
         | Inr colrs \<Rightarrow>
            (case detectTheme colrs of
               Inl e \<Rightarrow> Inl e
             | Inr th \<Rightarrow>
                 Inr (\<lparr>logo = \<lparr>url = url logoResult, quality = quality logoResult\<rparr>,
                       colors = colrs,
                       font = ''system-ui, -apple-system, sans-serif'',
                       theme = th\<rparr>, warnings', requests))))"

subsection \<open>extract-url.ts: extractWithPlaywright and extractUrlContent\<close>

record css_signals =
  sig_primary :: js_value
  sig_accent :: js_value
  sig_buttonBg :: js_value
  sig_linkColor :: js_value

text \<open>The object the in-page script of \<^verbatim>\<open>extractWithPlaywright\<close> returns.\<close>

definition urlCssSignals :: "page option \<Rightarrow> css_signals" where
  "urlCssSignals pg =
    (case pg of
       None \<Rightarrow> \<lparr>sig_primary = Null, sig_accent = Null, sig_buttonBg = Null, sig_linkColor = Null\<rparr>
     | Some p \<Rightarrow>
        \<lparr>sig_primary = tryProps (getPropertyValue p)
           [''--primary'', ''--primary-color'', ''--brand-color'', ''--color-primary'',
            ''--theme-primary'', ''--main-color''],
         sig_accent = tryProps (getPropertyValue p)
           [''--accent'', ''--accent-color'', ''--color-accent'', ''--secondary'',
            ''--secondary-color'', ''--theme-accent''],
         sig_buttonBg = firstButtonBg (take 10 (querySelectorAll p
           ''button, a.btn, [class*=\"button\"], [class*=\"btn\"], [class*=\"cta\"]'')),
         sig_linkColor = firstLinkColor (take 10 (querySelectorAll p ''a''))\<rparr>)"

text \<open>\<^verbatim>\<open>resolvedPrimary\<close>, \<^verbatim>\<open>resolvedAccent\<close> and \<^verbatim>\<open>colorResult\<close>; \<open>None\<close> is the
  \<^verbatim>\<open>null\<close> result.\<close>

definition resolvedPrimary :: "css_signals \<Rightarrow> js_value" where
  "resolvedPrimary sg =
    (if truthy (sig_primary sg) then rgbaToHex (sig_primary sg)
     else if truthy (sig_buttonBg sg) then rgbaToHex (sig_buttonBg sg)
     else if truthy (sig_linkColor sg) then rgbaToHex (sig_linkColor sg)
     else Null)"

definition resolvedAccent :: "css_signals \<Rightarrow> js_value" where
  "resolvedAccent sg = (if truthy (sig_accent sg) then rgbaToHex (sig_accent sg) else Null)"

definition colorResult :: "css_signals \<Rightarrow> css_colors option" where
  "colorResult sg =
    (if truthy (js_or (resolvedPrimary sg) (resolvedAccent sg))
     then Some \<lparr>css_primary = resolvedPrimary sg, css_accent = resolvedAccent sg\<rparr>
     else None)"

text \<open>The override that \<^verbatim>\<open>extractUrlContent\<close> writes out twice, once for a palette it has
  just extracted and once for the palette of an existing branding.\<close>

definition urlOverride :: "BrandColors \<Rightarrow> css_colors option \<Rightarrow> js_error + BrandColors" where
  "urlOverride colrs cssColors =
    (case cssColors of
       None \<Rightarrow> Inr colrs
     | Some css \<Rightarrow>
        (case (if truthy (css_primary css)
               then (case darkenHex (css_primary css) darkenFactor of
                       Inl e \<Rightarrow> Inl e
                     | Inr d \<Rightarrow> Inr (colrs\<lparr>primary := css_primary css, secondary := Str d\<rparr>))
               else Inr colrs) of
           Inl e \<Rightarrow> Inl e
         | Inr c2 \<Rightarrow>
             Inr (if truthy (css_accent css) then c2\<lparr>accent := css_accent css\<rparr> else c2)))"

text \<open>\<^verbatim>\<open>extractBrandingSimple\<close> (and \<^verbatim>\<open>extractBranding\<close> of branding.ts, which has the
  same body): logo, screenshot palette, theme; no refinement.\<close>

definition extractBrandingSimple ::
  "(string \<Rightarrow> string option) \<Rightarrow> network \<Rightarrow> BrandColors \<Rightarrow> string \<Rightarrow> string \<Rightarrow> string list
     \<Rightarrow> js_error + (BrandingResult \<times> string list \<times> string list)" where
  "extractBrandingSimple originOf net screenshotColors pageUrl hostname warnings =
    (let domain = replaceFirst ''www.'' [] hostname in
     case extractLogoFromCloud originOf net domain pageUrl warnings of
       Inl e \<Rightarrow> Inl e
     | Inr (logoResult, warnings', requests) \<Rightarrow>
        (case detectTheme screenshotColors of
           Inl e \<Rightarrow> Inl e
         | Inr th \<Rightarrow>
             Inr (\<lparr>logo = \<lparr>url = url logoResult, quality = quality logoResult\<rparr>,
                   colors = screenshotColors,
                   font = ''system-ui, -apple-system, sans-serif'',
                   theme = th\<rparr>, warnings', requests)))"

text \<open>
  The branding part of \<^verbatim>\<open>extractUrlContent\<close> after the Playwright session. \<open>branding0\<close>
  is what \<^verbatim>\<open>extractBrandingSimple\<close> returned, \<open>None\<close> when it raised; then the code
  takes a screenshot of its own, whose palette is \<open>screenshotColors\<close>.
\<close>

definition extractUrlContent_branding ::
  "string \<Rightarrow> BrandingResult option \<Rightarrow> BrandColors \<Rightarrow> css_colors option \<Rightarrow> string list
     \<Rightarrow> js_error + (BrandingResult \<times> string list)" where
  "extractUrlContent_branding domain branding0 screenshotColors cssColors warnings =
    (case branding0 of
       None \<Rightarrow>
        (case urlOverride screenshotColors cssColors of
           Inl e \<Rightarrow> Inl e
         | Inr colrs \<Rightarrow>
            (case detectTheme colrs of
               Inl e \<Rightarrow> Inl e
             | Inr th \<Rightarrow>
                 Inr (\<lparr>logo = \<lparr>url = faviconUrl domain, quality = favicon\<rparr>,
                       colors = colrs,
                       font = ''system-ui, sans-serif'',
                       theme = th\<rparr>,
                      warnings @ [''Colors extracted from screenshot/CSS analysis. Logo is a low-res favicon fallback.''])))
     | Some b \<Rightarrow>
        (case urlOverride (colors b) cssColors of
           Inl e \<Rightarrow> Inl e
         | Inr colrs \<Rightarrow> Inr (b\<lparr>colors := colrs\<rparr>, warnings)))"

subsection \<open>Notions used to state the properties\<close>

text \<open>The value of a hexadecimal digit, the two lower-case digits of a byte, and the canonical
  colour strings: \<^verbatim>\<open>#\<close> followed by exactly six hexadecimal digits.\<close>

definition hexValue :: "code_unit \<Rightarrow> nat" where
  "hexValue c = (case digitValue c of Some v \<Rightarrow> v | None \<Rightarrow> 0)"

definition hexByte :: "nat \<Rightarrow> js_string" where
  "hexByte n = [hexDigit (n div 16), hexDigit (n mod 16)]"

definition isHexDigit :: "code_unit \<Rightarrow> bool" where
  "isHexDigit c = isRadixDigit 16 c"

definition isHexColor :: "js_string \<Rightarrow> bool" where
  "isHexColor s = (length s = 7 \<and> hd s = of_char CHR ''#'' \<and> list_all isHexDigit (tl s))"

text \<open>A channel given by two digits, scaled by a factor: the product as the double the
  multiplication returns, rounded to the nearest integer with a tie going up.\<close>

definition scaleChannel :: "code_unit \<Rightarrow> code_unit \<Rightarrow> rat \<Rightarrow> nat" where
  "scaleChannel a b f = nat \<lfloor>fl (of_nat (16 * hexValue a + hexValue b) * f) + 1 / 2\<rfloor>"

text \<open>The inputs the properties of \<open>rgbaToHex\<close> range over. A channel of \<^verbatim>\<open>rgb(...)\<close> is a
  run of decimal digits of value at most 255. A number of \<^verbatim>\<open>hsl(...)\<close> is a run of decimal
  digits, optionally followed by a point and a second run; \<open>decimalValue\<close> is the number it
  denotes.\<close>

definition decimalChannel :: "js_string \<Rightarrow> bool" where
  "decimalChannel z = (z \<noteq> [] \<and> list_all (isRadixDigit 10) z \<and> digitsValue 10 z \<le> 255)"

definition decimalNumber :: "js_string \<Rightarrow> bool" where
  "decimalNumber z =
    (let ip = takeWhile (isRadixDigit 10) z; r = dropWhile (isRadixDigit 10) z
     in ip \<noteq> [] \<and> (r = [] \<or> (hd r = of_char CHR ''.'' \<and> tl r \<noteq> [] \<and> list_all (isRadixDigit 10) (tl r))))"

definition decimalValue :: "js_string \<Rightarrow> rat" where
  "decimalValue z =
    (let ip = takeWhile (isRadixDigit 10) z; r = dropWhile (isRadixDigit 10) z
     in of_int (digitsValue 10 ip) + of_int (digitsValue 10 (tl r)) / 10 ^ length (tl r))"

text \<open>\<open>rgbaToHex\<close> returns a canonical colour for the input and maps this colour to itself.\<close>

definition normalizesToHex :: "js_string \<Rightarrow> bool" where
  "normalizesToHex s =
    (case rgbaToHex (Str s) of
       Str x \<Rightarrow> isHexColor x \<and> rgbaToHex (Str x) = Str x
     | _ \<Rightarrow> False)"

subsection \<open>Example inputs\<close>

text \<open>A network in which exactly one URL answers 200; the third request of a run gets a
  404 and every other request fails.\<close>

definition exampleNetwork :: "string \<Rightarrow> network" where
  "exampleNetwork ok = (\<lambda>n u. if u = ok then Responds 200 else if n = 2 then Responds 404 else Rejects)"

text \<open>The default palette, which \<^verbatim>\<open>extract-docs.ts\<close> writes out as its last resort and which
  the palette extractor is documented to return for an image it cannot analyse.\<close>

definition defaultPalette :: BrandColors where
  "defaultPalette = \<lparr>primary = Str (utf16 ''#0066FF''), secondary = Str (utf16 ''#003D99''),
                      accent = Str (utf16 ''#66B3FF''), background = Str (utf16 ''#FFFFFF'')\<rparr>"

text \<open>A palette whose secondary colour is unrelated to its primary colour.\<close>

definition samplePalette :: BrandColors where
  "samplePalette = \<lparr>primary = Str (utf16 ''#336699''), secondary = Str (utf16 ''#FFCC00''),
                     accent = Str (utf16 ''#66B3FF''), background = Str (utf16 ''#1A1A1A'')\<rparr>"

text \<open>A page without custom properties, buttons and links.\<close>

definition plainPage :: page where
  "plainPage = \<lparr>getPropertyValue = (\<lambda>name. []), querySelectorAll = (\<lambda>selector. [])\<rparr>"

text \<open>A page without custom properties and without buttons, whose only link is blue.\<close>

definition linkOnlyPage :: page where
  "linkOnlyPage = \<lparr>getPropertyValue = (\<lambda>name. []),
                    querySelectorAll = (\<lambda>selector. if selector = ''a''
                       then [\<lparr>backgroundColor = utf16 ''rgba(0, 0, 0, 0)'', color = utf16 ''rgb(0, 102, 204)''\<rparr>]
                       else [])\<rparr>"

text \<open>A page that sets \<^verbatim>\<open>--primary: rgb(10, 20, 30)\<close>, has one green button, one blue link and
  no accent variable.\<close>

definition variablePage :: page where
  "variablePage = \<lparr>getPropertyValue = (\<lambda>name. if name = ''--primary'' then utf16 '' rgb(10, 20, 30)'' else []),
                    querySelectorAll = (\<lambda>selector. if selector = ''a''
                       then [\<lparr>backgroundColor = utf16 ''rgba(0, 0, 0, 0)'', color = utf16 ''rgb(0, 102, 204)''\<rparr>]
                       else [\<lparr>backgroundColor = utf16 ''rgb(0, 128, 0)'', color = utf16 ''rgb(255, 255, 255)''\<rparr>])\<rparr>"


section \<open>Basic facts\<close>

lemma startsWith_hash: "startsWith s (utf16 ''#'') = (\<exists>t. s = of_char CHR ''#'' # t)"
  by (cases s) (auto simp: startsWith_def)

lemma trim_Nil: "trim [] = []"
  by (simp add: trim_def)

lemma probeCommonPaths_none:
  "(\<forall>j < length ps. net (length reqs + j) (ps ! j) \<noteq> Responds 200)
     \<Longrightarrow> probeCommonPaths net ps reqs = (None, reqs @ ps)"
proof (induction ps arbitrary: reqs)
  case Nil
  then show ?case by simp
next
  case (Cons p ps)
  from Cons.prems have h0: "net (length reqs) p \<noteq> Responds 200" by force
  have "\<forall>j < length ps. net (length (reqs @ [p]) + j) (ps ! j) \<noteq> Responds 200"
  proof (intro allI impI)
    fix j assume "j < length ps"
    then have "net (length reqs + Suc j) ((p # ps) ! Suc j) \<noteq> Responds 200"
      using Cons.prems by (metis Suc_less_eq length_Cons)
    then show "net (length (reqs @ [p]) + j) (ps ! j) \<noteq> Responds 200" by simp
  qed
  from Cons.IH [OF this] h0 show ?case by simp
qed

lemma probeCommonPaths_some:
  "i < length ps \<Longrightarrow> (\<forall>j < i. net (length reqs + j) (ps ! j) \<noteq> Responds 200)
     \<Longrightarrow> net (length reqs + i) (ps ! i) = Responds 200
     \<Longrightarrow> probeCommonPaths net ps reqs = (Some (ps ! i), reqs @ take (Suc i) ps)"
proof (induction ps arbitrary: reqs i)
  case Nil
  then show ?case by simp
next
  case (Cons p ps)
  show ?case
  proof (cases i)
    case 0
    with Cons.prems show ?thesis by simp
  next
    case (Suc k)
    from Cons.prems Suc have h0: "net (length reqs) p \<noteq> Responds 200" by force
    have k: "k < length ps" using Cons.prems Suc by simp
    have a: "\<forall>j < k. net (length (reqs @ [p]) + j) (ps ! j) \<noteq> Responds 200"
    proof (intro allI impI)
      fix j assume "j < k"
      then have "net (length reqs + Suc j) ((p # ps) ! Suc j) \<noteq> Responds 200"
        using Cons.prems Suc by (metis Suc_less_eq)
      then show "net (length (reqs @ [p]) + j) (ps ! j) \<noteq> Responds 200" by simp
    qed
    have b: "net (length (reqs @ [p]) + k) (ps ! k) = Responds 200"
      using Cons.prems Suc by simp
    from Cons.IH [OF k a b] h0 Suc show ?thesis by simp
  qed
qed

lemma length_commonPaths: "length (commonPaths origin) = 6"
  by (simp add: commonPaths_def)

lemma toHex_small: "n < 16 \<Longrightarrow> toHex n = [hexDigit n]"
  by (subst toHex.simps) simp

lemma toHex_big: "16 \<le> n \<Longrightarrow> toHex n = toHex (n div 16) @ [hexDigit (n mod 16)]"
  by (subst toHex.simps) simp

lemma rgbaToHex_hash:
  "startsWith (trim s) (utf16 ''#'') \<Longrightarrow> rgbaToHex (Str s) =
     (if length (trim s) = 4
      then Str (utf16 ''#'' @ templateElement (codePoints (trim s)) 1 @ templateElement (codePoints (trim s)) 1
                 @ templateElement (codePoints (trim s)) 2 @ templateElement (codePoints (trim s)) 2
                 @ templateElement (codePoints (trim s)) 3 @ templateElement (codePoints (trim s)) 3)
      else Str (take 7 (trim s)))"
  by (cases "s = []") (simp_all add: trim_Nil startsWith_def Let_def)

text \<open>The code points of \<^verbatim>\<open>#\<close> and three code units: three elements after \<^verbatim>\<open>#\<close> unless two
  of the units are a surrogate pair.\<close>

lemma codePoints_hash3:
  "codePoints [of_char CHR ''#'', r, g, b] =
     (if isHighSurrogate r \<and> isLowSurrogate g then [utf16 ''#'', [r, g], [b]]
      else if isHighSurrogate g \<and> isLowSurrogate b then [utf16 ''#'', [r], [g, b]]
      else [utf16 ''#'', [r], [g], [b]])"
  by (simp add: isHighSurrogate_def)

lemma rgbaToHex_hash3:
  assumes "trim s = [of_char CHR ''#'', r, g, b]"
  shows "rgbaToHex (Str s) =
     (if isHighSurrogate r \<and> isLowSurrogate g
        then Str (utf16 ''#'' @ [r, g, r, g, b, b] @ utf16 ''undefinedundefined'')
      else if isHighSurrogate g \<and> isLowSurrogate b
        then Str (utf16 ''#'' @ [r, r, g, b, g, b] @ utf16 ''undefinedundefined'')
      else Str [of_char CHR ''#'', r, r, g, g, b, b])"
proof -
  have sw: "startsWith (trim s) (utf16 ''#'')" by (simp add: assms startsWith_def)
  show ?thesis
    unfolding rgbaToHex_hash [OF sw] assms codePoints_hash3
    by (simp add: templateElement_def)
qed

lemma rgbaToHex_rgb:
  "s \<noteq> [] \<Longrightarrow> \<not> startsWith (trim s) (utf16 ''#'') \<Longrightarrow> re_search rgbRegex (trim s) = Some caps \<Longrightarrow>
   rgbaToHex (Str s) =
     Str (of_char CHR ''#'' # concat (map (\<lambda>c. padStart 2 (of_char CHR ''0'') (toString16 (parseInt c None))) caps))"
  by simp

lemma rgbaToHex_hsl:
  "s \<noteq> [] \<Longrightarrow> \<not> startsWith (trim s) (utf16 ''#'') \<Longrightarrow> re_search rgbRegex (trim s) = None \<Longrightarrow>
   re_search hslRegex (trim s) = Some caps \<Longrightarrow>
   rgbaToHex (Str s) =
     Str (hslToHex (num_div (parseFloat (caps ! 0)) (Fin 360))
                   (num_div (parseFloat (caps ! 1)) (Fin 100))
                   (num_div (parseFloat (caps ! 2)) (Fin 100)))"
  by (simp add: Let_def)

lemma rgbaToHex_other:
  "s \<noteq> [] \<Longrightarrow> \<not> startsWith (trim s) (utf16 ''#'') \<Longrightarrow> re_search rgbRegex (trim s) = None \<Longrightarrow>
   re_search hslRegex (trim s) = None \<Longrightarrow>
   rgbaToHex (Str s) =
     (if truthy (getProperty namedColors (toLowerCase (trim s)))
      then getProperty namedColors (toLowerCase (trim s)) else Str (utf16 ''#0066FF''))"
  by (simp add: Let_def)

lemma trim_noop:
  assumes "s \<noteq> []" and "\<not> isWhiteSpace (hd s)" and "\<not> isWhiteSpace (last s)"
  shows "trim s = s"
proof -
  have 1: "dropWhile isWhiteSpace s = s" using assms(2) by (simp add: dropWhile_eq_self_iff)
  have "hd (rev s) = last s" using assms(1) by (simp add: hd_rev)
  then have 2: "dropWhile isWhiteSpace (rev s) = rev s" using assms(3) by (simp add: dropWhile_eq_self_iff)
  show ?thesis by (simp add: trim_def 1 2)
qed

section \<open>Facts about the rounding to a double\<close>

subsection \<open>The exponent\<close>

lemma two_powi_pos [simp]: "0 < (2::rat) powi k"
  by (simp add: zero_less_power_int)

lemma two_powi_mono: "a \<le> b \<Longrightarrow> (2::rat) powi a \<le> 2 powi b"
  by (rule power_int_increasing) simp_all

lemma two_powi_less_cancel: "(2::rat) powi a < 2 powi b \<Longrightarrow> a < b"
proof (rule ccontr)
  assume h: "(2::rat) powi a < 2 powi b" and "\<not> a < b"
  then have "b \<le> a" by simp
  then have "(2::rat) powi b \<le> 2 powi a" by (rule two_powi_mono)
  with h show False by simp
qed

lemma bitlen_rat_bounds:
  assumes "0 < (n::int)"
  shows "(2::rat) powi (bitlen n - 1) \<le> of_int n \<and> of_int n < (2::rat) powi (bitlen n)"
proof -
  from bitlen_bounds [OF assms]
  have lo: "2 ^ nat (bitlen n - 1) \<le> n" and hi: "n < 2 ^ nat (bitlen n)" by auto
  have b1: "1 \<le> bitlen n" using assms by (auto simp: bitlen_alt_def)
  have "(of_int (2 ^ nat (bitlen n - 1)) :: rat) \<le> of_int n" using lo by (simp only: of_int_le_iff)
  then have A: "(2::rat) powi (bitlen n - 1) \<le> of_int n"
    using b1 by (simp add: power_int_nonneg_exp)
  have "(of_int n :: rat) < of_int (2 ^ nat (bitlen n))" using hi by (simp only: of_int_less_iff)
  then have B: "of_int n < (2::rat) powi (bitlen n)"
    using b1 by (simp add: power_int_nonneg_exp)
  from A B show ?thesis ..
qed

lemma expo_bounds:
  assumes "x \<noteq> 0"
  shows "2 powi (expo x) \<le> \<bar>x\<bar> \<and> \<bar>x\<bar> < 2 powi (expo x + 1)"
proof -
  obtain n d where nd: "quotient_of \<bar>x\<bar> = (n, d)" by (cases "quotient_of \<bar>x\<bar>")
  have dpos: "0 < d" using nd by (rule quotient_of_denom_pos)
  have xeq: "\<bar>x\<bar> = of_int n / of_int d" using nd by (rule quotient_of_div)
  have xpos: "0 < \<bar>x\<bar>" using assms by simp
  have npos: "0 < n"
  proof (rule ccontr)
    assume "\<not> 0 < n"
    then have "(of_int n :: rat) \<le> 0" by simp
    then have "of_int n / of_int d \<le> (0::rat)" using dpos by (simp add: divide_le_0_iff)
    with xpos xeq show False by simp
  qed
  define a where "a = bitlen n"
  define b where "b = bitlen d"
  define k where "k = a - b"
  have na: "(2::rat) powi (a - 1) \<le> of_int n" "of_int n < (2::rat) powi a"
    using bitlen_rat_bounds [OF npos] by (simp_all add: a_def)
  have db: "(2::rat) powi (b - 1) \<le> of_int d" "of_int d < (2::rat) powi b"
    using bitlen_rat_bounds [OF dpos] by (simp_all add: b_def)
  have dpos': "(0::rat) < of_int d" using dpos by simp
  have up: "\<bar>x\<bar> < 2 powi (k + 1)"
  proof -
    have "of_int n / of_int d < (2::rat) powi a / of_int d"
      using na(2) dpos' by (simp add: divide_strict_right_mono)
    also have "\<dots> \<le> (2::rat) powi a / 2 powi (b - 1)"
    proof (rule divide_left_mono [OF db(1)])
      show "0 \<le> (2::rat) powi a" using two_powi_pos [of a] by linarith
      show "0 < of_int d * (2::rat) powi (b - 1)" using dpos' two_powi_pos [of "b - 1"] by (rule mult_pos_pos)
    qed
    also have "\<dots> = 2 powi (k + 1)"
      by (simp add: k_def power_int_diff [symmetric] algebra_simps)
    finally show ?thesis by (simp add: xeq)
  qed
  have lo: "2 powi (k - 1) < \<bar>x\<bar>"
  proof -
    have "(2::rat) powi (k - 1) = 2 powi (a - 1) / 2 powi b"
      by (simp add: k_def power_int_diff [symmetric] algebra_simps)
    also have "\<dots> < 2 powi (a - 1) / of_int d"
    proof (rule divide_strict_left_mono [OF db(2)])
      show "0 < (2::rat) powi (a - 1)" by (rule two_powi_pos)
      show "0 < (2::rat) powi b * of_int d" using two_powi_pos [of b] dpos' by (rule mult_pos_pos)
    qed
    also have "\<dots> \<le> of_int n / of_int d"
      using na(1) dpos' by (simp add: divide_right_mono)
    finally show ?thesis by (simp add: xeq)
  qed
  have ex: "expo x = (if 2 powi k \<le> \<bar>x\<bar> then k else k - 1)"
    by (simp add: expo_def nd k_def a_def b_def)
  show ?thesis
  proof (cases "2 powi k \<le> \<bar>x\<bar>")
    case True
    with ex up show ?thesis by simp
  next
    case False
    with ex lo show ?thesis by (simp add: less_imp_le)
  qed
qed

lemma expo_eqI:
  assumes "2 powi e \<le> \<bar>x\<bar>" and "\<bar>x\<bar> < 2 powi (e + 1)"
  shows "expo x = e"
proof -
  have x0: "x \<noteq> 0"
  proof
    assume "x = 0"
    with assms(1) have "(2::rat) powi e \<le> 0" by simp
    with two_powi_pos [of e] show False by linarith
  qed
  from expo_bounds [OF x0] have b: "2 powi (expo x) \<le> \<bar>x\<bar>" "\<bar>x\<bar> < 2 powi (expo x + 1)" by auto
  have "(2::rat) powi e < 2 powi (expo x + 1)" using assms(1) b(2) by simp
  then have 1: "e < expo x + 1" by (rule two_powi_less_cancel)
  have "(2::rat) powi (expo x) < 2 powi (e + 1)" using assms(2) b(1) by simp
  then have 2: "expo x < e + 1" by (rule two_powi_less_cancel)
  from 1 2 show ?thesis by simp
qed

lemma expo_minus [simp]: "expo (- x) = expo x"
  by (simp add: expo_def)

lemma expo_mono:
  assumes "x \<noteq> 0" and "\<bar>x\<bar> \<le> \<bar>y\<bar>"
  shows "expo x \<le> expo y"
proof -
  have y0: "y \<noteq> 0" using assms by auto
  have "(2::rat) powi (expo x) \<le> \<bar>x\<bar>" using expo_bounds [OF assms(1)] by simp
  also have "\<dots> \<le> \<bar>y\<bar>" by fact
  also have "\<dots> < 2 powi (expo y + 1)" using expo_bounds [OF y0] by simp
  finally have "expo x < expo y + 1" by (rule two_powi_less_cancel)
  then show ?thesis by simp
qed

subsection \<open>Rounding to an integer, ties to even\<close>

lemma roundHalfEven_cases: "roundHalfEven m = \<lfloor>m\<rfloor> \<or> roundHalfEven m = \<lfloor>m\<rfloor> + 1"
  by (simp add: roundHalfEven_def Let_def)

lemma roundHalfEven_of_int [simp]: "roundHalfEven (of_int k) = k"
  by (simp add: roundHalfEven_def)

lemma roundHalfEven_le:
  assumes "m \<le> of_int k" shows "roundHalfEven m \<le> k"
proof (cases "m = of_int k")
  case True then show ?thesis by simp
next
  case False
  with assms have "m < of_int k" by simp
  then have "\<lfloor>m\<rfloor> < k" by (simp add: floor_less_iff)
  with roundHalfEven_cases [of m] show ?thesis by auto
qed

lemma roundHalfEven_ge:
  assumes "of_int k \<le> m" shows "k \<le> roundHalfEven m"
proof -
  have "k \<le> \<lfloor>m\<rfloor>" using assms by (simp add: le_floor_iff)
  with roundHalfEven_cases [of m] show ?thesis by auto
qed

lemma roundHalfEven_error: "\<bar>of_int (roundHalfEven m) - m\<bar> \<le> 1 / 2"
proof -
  have "of_int \<lfloor>m\<rfloor> \<le> m" "m < of_int \<lfloor>m\<rfloor> + 1" by linarith+
  then show ?thesis
    by (auto simp: roundHalfEven_def Let_def abs_le_iff)
qed

lemma roundHalfEven_mono:
  assumes "m1 \<le> m2" shows "roundHalfEven m1 \<le> roundHalfEven m2"
proof (cases "\<lfloor>m1\<rfloor> = \<lfloor>m2\<rfloor>")
  case True
  have "m1 - of_int \<lfloor>m1\<rfloor> \<le> m2 - of_int \<lfloor>m2\<rfloor>" using assms True by simp
  then show ?thesis using True
    by (auto simp: roundHalfEven_def Let_def)
next
  case False
  have "\<lfloor>m1\<rfloor> \<le> \<lfloor>m2\<rfloor>" using assms by (rule floor_mono)
  with False have "\<lfloor>m1\<rfloor> + 1 \<le> \<lfloor>m2\<rfloor>" by simp
  with roundHalfEven_cases [of m1] roundHalfEven_cases [of m2] show ?thesis by auto
qed

lemma roundHalfEven_minus: "roundHalfEven (- m) = - roundHalfEven m"
proof (cases "m = of_int \<lfloor>m\<rfloor>")
  case True
  then obtain k where "m = of_int k" ..
  then show ?thesis by (simp flip: of_int_minus)
next
  case False
  have fl: "of_int \<lfloor>m\<rfloor> < m" "m < of_int \<lfloor>m\<rfloor> + 1" using False by linarith+
  have nf: "\<lfloor>- m\<rfloor> = - \<lfloor>m\<rfloor> - 1" using fl by (simp add: floor_unique)
  show ?thesis using fl
    by (auto simp: roundHalfEven_def Let_def nf)
qed

subsection \<open>Rounding to a double\<close>

lemma fl_zero [simp]: "fl 0 = 0"
  by (simp add: fl_def)

lemma fl_minus: "fl (- x) = - fl x"
  by (simp add: fl_def Let_def roundHalfEven_minus)

lemma fl_unfold: "x \<noteq> 0 \<Longrightarrow>
  fl x = of_int (roundHalfEven (x / 2 powi (max (expo x - 52) (- 1074)))) * 2 powi (max (expo x - 52) (- 1074))"
  by (simp add: fl_def Let_def)

lemma fl_eqI:
  assumes "2 powi e \<le> \<bar>x\<bar>" and "\<bar>x\<bar> < 2 powi (e + 1)"
    and "q = max (e - 52) (- 1074)"
    and "roundHalfEven (x / 2 powi q) = m"
  shows "fl x = of_int m * 2 powi q"
proof -
  have e: "expo x = e" using assms(1,2) by (rule expo_eqI)
  have x0: "x \<noteq> 0"
  proof
    assume "x = 0"
    with assms(1) have "(2::rat) powi e \<le> 0" by simp
    with two_powi_pos [of e] show False by linarith
  qed
  show ?thesis using assms(3,4) by (simp add: fl_unfold [OF x0] e)
qed

lemma fl_representable:
  assumes m: "\<bar>m\<bar> < 2 ^ 53" and q: "- 1074 \<le> q"
  shows "fl (of_int m * 2 powi q) = of_int m * 2 powi q"
proof (cases "m = 0")
  case True then show ?thesis by simp
next
  case False
  define b :: rat where "b = of_int m * 2 powi q"
  have b0: "b \<noteq> 0" using False by (simp add: b_def)
  define qb where "qb = max (expo b - 52) (- 1074)"
  have "(2::rat) powi (expo b) \<le> \<bar>b\<bar>" using expo_bounds [OF b0] by simp
  also have "\<bar>b\<bar> = of_int \<bar>m\<bar> * 2 powi q" by (simp add: b_def abs_mult)
  also have "\<dots> < 2 ^ 53 * 2 powi q"
  proof (rule mult_strict_right_mono)
    have "(of_int \<bar>m\<bar> :: rat) < of_int (2 ^ 53)" using m by (simp only: of_int_less_iff)
    then show "(of_int \<bar>m\<bar> :: rat) < 2 ^ 53" by simp
    show "(0::rat) < 2 powi q" by (rule two_powi_pos)
  qed
  also have "\<dots> = 2 powi (53 + q)" by (simp add: power_int_add)
  finally have "expo b < 53 + q" by (rule two_powi_less_cancel)
  then have le: "qb \<le> q" using q by (simp add: qb_def)
  define j where "j = nat (q - qb)"
  have "(2::rat) powi q / 2 powi qb = 2 powi (q - qb)" by (simp add: power_int_diff)
  also have "\<dots> = 2 ^ j" using le by (simp add: j_def power_int_nonneg_exp)
  finally have r: "(2::rat) powi q = 2 ^ j * 2 powi qb" by (simp add: field_simps)
  have "b / 2 powi qb = of_int (m * 2 ^ j)" by (simp add: b_def r)
  then have "roundHalfEven (b / 2 powi qb) = m * 2 ^ j" by (simp only: roundHalfEven_of_int)
  then have "fl b = of_int (m * 2 ^ j) * 2 powi qb"
    by (simp add: fl_unfold [OF b0] qb_def)
  also have "\<dots> = b" by (simp add: b_def r)
  finally show ?thesis by (simp add: b_def)
qed

lemma fl_of_int: "\<bar>m\<bar> < 2 ^ 53 \<Longrightarrow> fl (of_int m) = of_int m"
  using fl_representable [of m 0] by simp

lemma fl_numeral: "\<bar>numeral n :: int\<bar> < 2 ^ 53 \<Longrightarrow> fl (numeral n) = numeral n"
  using fl_of_int [of "numeral n"] by simp

lemma fl_one [simp]: "fl 1 = 1"
  using fl_of_int [of 1] by simp

text \<open>The value of \<open>fl x\<close> lies in the binade of \<open>x\<close>.\<close>

lemma fl_pos_bounds:
  assumes "0 < x"
  shows "fl x \<le> 2 powi (expo x + 1)"
    and "- 1074 \<le> expo x - 52 \<Longrightarrow> 2 powi (expo x) \<le> fl x"
    and "0 \<le> fl x"
proof -
  have x0: "x \<noteq> 0" using assms by simp
  define e where "e = expo x"
  define q where "q = max (e - 52) (- 1074)"
  have flx: "fl x = of_int (roundHalfEven (x / 2 powi q)) * 2 powi q"
    by (simp add: fl_unfold [OF x0] q_def e_def)
  have xb: "2 powi e \<le> x" "x < 2 powi (e + 1)" using expo_bounds [OF x0] assms by (simp_all add: e_def)
  have qpos: "(0::rat) < 2 powi q" by (rule two_powi_pos)
  have "of_int 0 \<le> x / 2 powi q" using assms qpos by simp
  then have "0 \<le> roundHalfEven (x / 2 powi q)" by (rule roundHalfEven_ge)
  then show "0 \<le> fl x" using qpos by (simp add: flx)
  show "fl x \<le> 2 powi (expo x + 1)"
  proof (cases "q \<le> e + 1")
    case True
    define j where "j = nat (e + 1 - q)"
    have "(2::rat) powi (e + 1) / 2 powi q = 2 powi (e + 1 - q)" by (simp add: power_int_diff)
    also have "\<dots> = 2 ^ j" using True by (simp add: j_def power_int_nonneg_exp)
    finally have r: "(2::rat) powi (e + 1) = 2 ^ j * 2 powi q" by (simp add: field_simps)
    have "x / 2 powi q \<le> 2 powi (e + 1) / 2 powi q"
      using xb(2) qpos by (simp add: divide_right_mono less_imp_le)
    also have "\<dots> = of_int (2 ^ j)" by (simp add: r)
    finally have "roundHalfEven (x / 2 powi q) \<le> 2 ^ j" by (rule roundHalfEven_le)
    then have "(of_int (roundHalfEven (x / 2 powi q)) :: rat) \<le> of_int (2 ^ j)"
      by (simp only: of_int_le_iff)
    then have "fl x \<le> 2 ^ j * 2 powi q" using qpos by (simp add: flx)
    also have "\<dots> = 2 powi (e + 1)" by (simp only: r)
    finally show ?thesis by (simp only: e_def)
  next
    case False
    then have lt: "e + 1 < q" by simp
    have "x / 2 powi q < 2 powi (e + 1) / 2 powi q" using xb(2) qpos by (simp add: divide_strict_right_mono)
    also have "\<dots> = 2 powi (e + 1 - q)" by (simp add: power_int_diff)
    also have "\<dots> \<le> 2 powi (- 1)" using lt by (intro two_powi_mono) simp
    finally have small: "x / 2 powi q < 1 / 2" by (simp add: power_int_minus)
    define z where "z = x / 2 powi q"
    have "0 \<le> z" using assms qpos by (simp add: z_def)
    moreover have zs: "z < 1 / 2" using small by (simp only: z_def)
    ultimately have fz: "\<lfloor>z\<rfloor> = 0" by (intro floor_unique) simp_all
    have "roundHalfEven z = 0" using zs by (simp add: roundHalfEven_def Let_def fz)
    then have "roundHalfEven (x / 2 powi q) = 0" by (simp only: z_def)
    then have "fl x = 0" by (simp add: flx)
    then show ?thesis using two_powi_pos [of "expo x + 1"] by linarith
  qed
  show "2 powi (expo x) \<le> fl x" if n: "- 1074 \<le> expo x - 52"
  proof -
    have qe: "q = e - 52" using n by (simp add: q_def e_def)
    have "(2::rat) powi e / 2 powi q = 2 powi (e - q)" by (simp add: power_int_diff)
    also have "\<dots> = 2 ^ 52" by (simp add: qe)
    finally have r: "(2::rat) powi e = 2 ^ 52 * 2 powi q" by (simp add: field_simps)
    have "(of_int (2 ^ 52) :: rat) = 2 powi e / 2 powi q" by (simp add: r)
    also have "\<dots> \<le> x / 2 powi q" using xb(1) qpos by (simp add: divide_right_mono)
    finally have "2 ^ 52 \<le> roundHalfEven (x / 2 powi q)" by (rule roundHalfEven_ge)
    then have "(of_int (2 ^ 52) :: rat) \<le> of_int (roundHalfEven (x / 2 powi q))"
      by (simp only: of_int_le_iff)
    then have "2 ^ 52 * 2 powi q \<le> fl x" using qpos by (simp add: flx)
    then have "2 powi e \<le> fl x" by (simp only: r)
    then show ?thesis by (simp only: e_def)
  qed
qed

lemma fl_mono_pos:
  assumes "0 < x" and "x \<le> y"
  shows "fl x \<le> fl y"
proof -
  have x0: "x \<noteq> 0" and y0: "y \<noteq> 0" and ypos: "0 < y" using assms by simp_all
  have em: "expo x \<le> expo y" using assms by (intro expo_mono) simp_all
  define qx where "qx = max (expo x - 52) (- 1074)"
  define qy where "qy = max (expo y - 52) (- 1074)"
  have flx: "fl x = of_int (roundHalfEven (x / 2 powi qx)) * 2 powi qx"
    by (simp add: fl_unfold [OF x0] qx_def)
  have fly: "fl y = of_int (roundHalfEven (y / 2 powi qy)) * 2 powi qy"
    by (simp add: fl_unfold [OF y0] qy_def)
  have qle: "qx \<le> qy" using em by (simp add: qx_def qy_def)
  show ?thesis
  proof (cases "qx = qy")
    case True
    have qpos: "(0::rat) < 2 powi qy" by (rule two_powi_pos)
    have "x / 2 powi qy \<le> y / 2 powi qy" using assms(2) qpos by (simp add: divide_right_mono)
    then have "roundHalfEven (x / 2 powi qy) \<le> roundHalfEven (y / 2 powi qy)"
      by (rule roundHalfEven_mono)
    then have "(of_int (roundHalfEven (x / 2 powi qy)) :: rat) \<le> of_int (roundHalfEven (y / 2 powi qy))"
      by (simp only: of_int_le_iff)
    then show ?thesis using qpos by (simp add: flx fly True)
  next
    case False
    with qle have lt: "qx < qy" by simp
    then have n: "- 1074 \<le> expo y - 52" and elt: "expo x < expo y"
      by (auto simp: qx_def qy_def max_def split: if_splits)
    have "fl x \<le> 2 powi (expo x + 1)" using assms(1) by (rule fl_pos_bounds(1))
    also have "\<dots> \<le> 2 powi (expo y)" using elt by (intro two_powi_mono) simp
    also have "\<dots> \<le> fl y" using ypos n by (rule fl_pos_bounds(2))
    finally show ?thesis .
  qed
qed

lemma fl_mono:
  assumes "x \<le> y" shows "fl x \<le> fl y"
proof -
  consider "0 < x" | "x \<le> 0" "0 \<le> y" | "y < 0" by linarith
  then show ?thesis
  proof cases
    case 1
    then show ?thesis using assms by (rule fl_mono_pos)
  next
    case 2
    have a: "fl x \<le> 0"
    proof (cases "x = 0")
      case True then show ?thesis by simp
    next
      case False
      with 2 have "0 < - x" by simp
      then have "0 \<le> fl (- x)" by (rule fl_pos_bounds(3))
      then show ?thesis by (simp add: fl_minus)
    qed
    have b: "0 \<le> fl y"
    proof (cases "y = 0")
      case True then show ?thesis by simp
    next
      case False
      with 2 have "0 < y" by simp
      then show ?thesis by (rule fl_pos_bounds(3))
    qed
    from a b show ?thesis by simp
  next
    case 3
    then have "0 < - y" "- y \<le> - x" using assms by simp_all
    then have "fl (- y) \<le> fl (- x)" by (rule fl_mono_pos)
    then show ?thesis by (simp add: fl_minus)
  qed
qed

lemma fl_error:
  assumes "\<bar>x\<bar> < 2 powi k" and "- 1021 \<le> k"
  shows "\<bar>fl x - x\<bar> \<le> 2 powi (k - 54)"
proof (cases "x = 0")
  case True
  then show ?thesis using two_powi_pos [of "k - 54"] by simp
next
  case False
  define q where "q = max (expo x - 52) (- 1074)"
  have qpos: "(0::rat) < 2 powi q" by (rule two_powi_pos)
  have flx: "fl x = of_int (roundHalfEven (x / 2 powi q)) * 2 powi q"
    by (simp add: fl_unfold [OF False] q_def)
  have "(2::rat) powi (expo x) \<le> \<bar>x\<bar>" using expo_bounds [OF False] by simp
  also have "\<dots> < 2 powi k" by fact
  finally have "expo x < k" by (rule two_powi_less_cancel)
  then have qk: "q \<le> k - 53" using assms(2) by (simp add: q_def)
  have "fl x - x = (of_int (roundHalfEven (x / 2 powi q)) - x / 2 powi q) * 2 powi q"
    using qpos by (simp add: flx field_simps)
  then have "\<bar>fl x - x\<bar> = \<bar>of_int (roundHalfEven (x / 2 powi q)) - x / 2 powi q\<bar> * 2 powi q"
    using qpos by (simp add: abs_mult)
  also have "\<dots> \<le> 1 / 2 * 2 powi q"
    using roundHalfEven_error [of "x / 2 powi q"] qpos by (intro mult_right_mono) simp_all
  also have "\<dots> = 2 powi (q - 1)" by (simp add: power_int_diff)
  also have "\<dots> \<le> 2 powi (k - 54)" using qk by (intro two_powi_mono) simp
  finally show ?thesis .
qed

lemma roundHalfEven_eqI:
  assumes "\<bar>m - of_int k\<bar> < 1 / 2"
  shows "roundHalfEven m = k"
proof (cases "of_int k \<le> m")
  case True
  with assms have "m < of_int k + 1" by linarith
  with True have f: "\<lfloor>m\<rfloor> = k" by (intro floor_unique) simp_all
  from assms True have "m - of_int k < 1 / 2" by linarith
  then show ?thesis by (simp add: roundHalfEven_def Let_def f)
next
  case False
  have c: "(of_int (k - 1) :: rat) = of_int k - 1" by simp
  from assms False have "of_int k - 1 \<le> m" "m < of_int k - 1 + 1" by linarith+
  then have "of_int (k - 1) \<le> m" "m < of_int (k - 1) + 1" by (simp_all only: c)
  then have f: "\<lfloor>m\<rfloor> = k - 1" by (intro floor_unique)
  from assms False have "1 / 2 < m - (of_int k - 1)" by linarith
  then have "1 / 2 < m - of_int (k - 1)" by (simp only: c)
  then show ?thesis by (simp add: roundHalfEven_def Let_def f)
qed

lemma roundToDouble_small:
  assumes "\<bar>x\<bar> \<le> 2 ^ 64"
  shows "roundToDouble x = Fin (fl x)"
proof -
  have r: "fl (2 ^ 64) = (2 ^ 64 :: rat)" using fl_representable [of 1 64] by simp
  have "fl x \<le> fl (2 ^ 64)" using assms by (intro fl_mono) simp
  then have u: "fl x \<le> 2 ^ 64" by (simp only: r)
  have "fl (- (2 ^ 64)) \<le> fl x" using assms by (intro fl_mono) simp
  then have l: "- (2 ^ 64) \<le> fl x" by (simp only: fl_minus r)
  have "(2::rat) ^ 64 < 2 ^ 1024" by (rule power_strict_increasing) simp_all
  with u l show ?thesis by (simp add: roundToDouble_def Let_def)
qed

lemma darkenFactor_eq: "darkenFactor = Fin (5404319552844595 / 2 ^ 53)"
proof -
  have "fl (6 / 10) = of_int 5404319552844595 * 2 powi (- 53)"
    by (rule fl_eqI [where e = "- 1"]) (simp_all add: roundHalfEven_eqI)
  then have "fl (6 / 10) = 5404319552844595 / 2 ^ 53" by (simp add: power_int_minus field_simps)
  then show ?thesis by (simp add: darkenFactor_def lit_def roundToDouble_small)
qed

lemma mul_102: "num_mul (Fin 102) darkenFactor = Fin (8613134287346073 / 2 ^ 47)"
proof -
  have "fl (102 * (5404319552844595 / 2 ^ 53)) = of_int 8613134287346073 * 2 powi (- 47)"
    by (rule fl_eqI [where e = 5]) (simp_all add: roundHalfEven_eqI)
  then have "fl (102 * (5404319552844595 / 2 ^ 53)) = 8613134287346073 / 2 ^ 47"
    by (simp add: power_int_minus field_simps)
  then show ?thesis by (simp add: darkenFactor_eq roundToDouble_small)
qed

section \<open>Facts about hexadecimal digits and darkenHex\<close>

lemma hexDigit_range:
  assumes "isRadixDigit 16 c"
  shows "(48 \<le> c \<and> c \<le> 57 \<and> hexValue c = c - 48)
       \<or> (97 \<le> c \<and> c \<le> 102 \<and> hexValue c = c - 87)
       \<or> (65 \<le> c \<and> c \<le> 70 \<and> hexValue c = c - 55)"
  using assms
  by (auto simp: isRadixDigit_def digitValue_def hexValue_def Let_def split: if_splits)

lemma hexDigit_facts:
  assumes "isRadixDigit 16 c"
  shows "digitValue c = Some (hexValue c)" and "hexValue c < 16"
    and "\<not> isWhiteSpace c" and "c \<noteq> of_char CHR ''-''" and "c \<noteq> of_char CHR ''+''"
    and "c \<noteq> of_char CHR ''x''" and "c \<noteq> of_char CHR ''X''"
  using assms
  by (auto simp: isRadixDigit_def digitValue_def hexValue_def Let_def isWhiteSpace_def split: if_splits)

lemma hexDigit_hexValue:
  assumes "isRadixDigit 16 c"
  shows "hexDigit (hexValue c) = toLowerCaseChar c"
proof -
  from hexDigit_range [OF assms]
  have "(c \<in> {48, 49, 50, 51, 52, 53, 54, 55, 56, 57} \<and> hexValue c = c - 48)
      \<or> (c \<in> {97, 98, 99, 100, 101, 102} \<and> hexValue c = c - 87)
      \<or> (c \<in> {65, 66, 67, 68, 69, 70} \<and> hexValue c = c - 55)"
    by (elim disjE conjE) (simp_all, presburger+)
  then show ?thesis
    by (elim disjE conjE insertE emptyE)
       (simp_all add: hexDigit_def toLowerCaseChar_def Let_def)
qed

lemma roundToDouble_of_nat:
  assumes "c < 2 ^ 53"
  shows "roundToDouble (of_nat c) = Fin (of_nat c)"
proof -
  have "int c < 2 ^ 53" using assms by (metis of_nat_less_numeral_power_cancel_iff)
  then have b: "\<bar>int c\<bar> < 2 ^ 53" by simp
  have f: "fl (of_int (int c)) = of_int (int c)" using b by (rule fl_of_int)
  have "(of_int (int c) :: rat) < of_int (2 ^ 53)" using b by (simp only: of_int_less_iff)
  also have "\<dots> \<le> 2 ^ 64" by simp
  finally have "\<bar>(of_int (int c) :: rat)\<bar> \<le> 2 ^ 64" by simp
  then have "roundToDouble (of_int (int c)) = Fin (fl (of_int (int c)))" by (rule roundToDouble_small)
  then show ?thesis by (simp only: f) simp
qed

lemma parseInt_hex_pair:
  assumes a: "isRadixDigit 16 a" and b: "isRadixDigit 16 b"
  shows "parseInt [a, b] (Some 16) = Fin (of_nat (16 * hexValue a + hexValue b))"
proof -
  note fa = hexDigit_facts [OF a] and fb = hexDigit_facts [OF b]
  define c where "c = 16 * hexValue a + hexValue b"
  have c: "c < 2 ^ 53" using fa(2) fb(2) by (simp add: c_def)
  have d: "digitsValue 16 [a, b] = int c" using fa(1) fb(1) by (simp add: digitsValue_def c_def)
  have "parseInt [a, b] (Some 16) = roundToDouble (of_int (digitsValue 16 [a, b]))"
    using fa fb a b
    by (simp add: parseInt_def trimStart_def Let_def del: of_int_add of_int_mult)
  also have "\<dots> = roundToDouble (of_nat c)" by (simp only: d) simp
  also have "\<dots> = Fin (of_nat c)" using c by (rule roundToDouble_of_nat)
  finally show ?thesis by (simp only: c_def)
qed

lemma padStart_toHex:
  assumes "k < 256"
  shows "padStart 2 (of_char CHR ''0'') (toHex k) = hexByte k"
proof (cases "k < 16")
  case True
  then show ?thesis by (simp add: toHex_small padStart_def hexByte_def hexDigit_def)
next
  case False
  then have "k div 16 < 16" using assms by simp
  with False show ?thesis by (simp add: toHex_small toHex_big padStart_def hexByte_def)
qed

lemma channelHex_byte:
  assumes "- (1 / 2) \<le> y" and "y < 255 + 1 / 2"
  shows "channelHex (Fin y) = hexByte (nat \<lfloor>y + 1 / 2\<rfloor>)"
proof -
  define n where "n = \<lfloor>y + 1 / 2\<rfloor>"
  have n0: "0 \<le> n" using assms(1) by (simp add: n_def)
  have "y + 1 / 2 < of_int 256" using assms(2) by simp
  then have n1: "n < 256" unfolding n_def by (simp only: floor_less_iff)
  have "channelHex (Fin y) = padStart 2 (of_char CHR ''0'') (toHex (nat n))"
    using n0 by (simp add: channelHex_def n_def [symmetric])
  also have "\<dots> = hexByte (nat n)" using n0 n1 by (intro padStart_toHex) simp
  finally show ?thesis by (simp only: n_def)
qed

lemma scaled_bounds:
  assumes "0 \<le> f" and "f \<le> 1" and "c \<le> (255::nat)"
  shows "0 \<le> fl (of_nat c * f)" and "fl (of_nat c * f) \<le> 255"
    and "roundToDouble (of_nat c * f) = Fin (fl (of_nat c * f))"
proof -
  have x0: "0 \<le> (of_nat c :: rat) * f" using assms by simp
  have "(of_nat c :: rat) * f \<le> of_nat c * 1" using assms by (intro mult_left_mono) simp_all
  also have "\<dots> \<le> 255" using assms(3) by simp
  finally have x1: "(of_nat c :: rat) * f \<le> 255" .
  have "fl 0 \<le> fl (of_nat c * f)" using x0 by (rule fl_mono)
  then show "0 \<le> fl (of_nat c * f)" by simp
  have "fl (of_nat c * f) \<le> fl 255" using x1 by (rule fl_mono)
  then show "fl (of_nat c * f) \<le> 255" by (simp add: fl_numeral)
  show "roundToDouble (of_nat c * f) = Fin (fl (of_nat c * f))"
    using x0 x1 by (intro roundToDouble_small) simp
qed

lemma darkenHex_channel:
  assumes a: "isRadixDigit 16 a" and b: "isRadixDigit 16 b" and f: "0 \<le> f" "f \<le> 1"
  shows "channelHex (num_mul (parseInt [a, b] (Some 16)) (Fin f)) = hexByte (scaleChannel a b f)"
    and "scaleChannel a b f \<le> 255"
proof -
  define c where "c = 16 * hexValue a + hexValue b"
  have c: "c \<le> 255" using hexDigit_facts(2) [OF a] hexDigit_facts(2) [OF b] by (simp add: c_def)
  note sb = scaled_bounds [OF f c]
  define y where "y = fl (of_nat c * f)"
  have sc: "scaleChannel a b f = nat \<lfloor>y + 1 / 2\<rfloor>"
    by (simp only: scaleChannel_def c_def y_def)
  have "num_mul (parseInt [a, b] (Some 16)) (Fin f) = Fin y"
    by (simp only: parseInt_hex_pair [OF a b] c_def [symmetric] num_mul.simps sb(3) y_def)
  then have "channelHex (num_mul (parseInt [a, b] (Some 16)) (Fin f)) = channelHex (Fin y)"
    by (simp only:)
  also have "\<dots> = hexByte (nat \<lfloor>y + 1 / 2\<rfloor>)"
    using sb(1,2) unfolding y_def [symmetric] by (intro channelHex_byte) simp_all
  finally show "channelHex (num_mul (parseInt [a, b] (Some 16)) (Fin f)) = hexByte (scaleChannel a b f)"
    by (simp only: sc)
  have "y + 1 / 2 < of_int 256" using sb(2) unfolding y_def [symmetric] by simp
  then have "\<lfloor>y + 1 / 2\<rfloor> < 256" by (simp only: floor_less_iff)
  then show "scaleChannel a b f \<le> 255" unfolding sc by linarith
qed

lemma darkenHex_wellformed:
  assumes "isRadixDigit 16 d1" "isRadixDigit 16 d2" "isRadixDigit 16 d3"
    "isRadixDigit 16 d4" "isRadixDigit 16 d5" "isRadixDigit 16 d6" and f: "0 \<le> f" "f \<le> 1"
  shows "darkenHex (Str (of_char CHR ''#'' # d1 # d2 # d3 # d4 # d5 # d6 # rest)) (Fin f)
    = Inr (of_char CHR ''#'' # hexByte (scaleChannel d1 d2 f) @ hexByte (scaleChannel d3 d4 f)
             @ hexByte (scaleChannel d5 d6 f))"
proof -
  have p: "parseInt [d1, d2] (Some 16) \<noteq> NaN" "parseInt [d3, d4] (Some 16) \<noteq> NaN"
    "parseInt [d5, d6] (Some 16) \<noteq> NaN"
    using assms by (simp_all add: parseInt_hex_pair)
  show ?thesis
    using p by (simp add: startsWith_def Let_def isNaN_def darkenHex_channel(1) assms)
qed

lemma scaleChannel_0: "scaleChannel a b 0 = 0"
  by (simp add: scaleChannel_def)

lemma scaleChannel_1:
  assumes a: "isRadixDigit 16 a" and b: "isRadixDigit 16 b"
  shows "scaleChannel a b 1 = 16 * hexValue a + hexValue b"
proof -
  define c where "c = 16 * hexValue a + hexValue b"
  have "c < 2 ^ 53"
    using hexDigit_facts(2) [OF a] hexDigit_facts(2) [OF b] by (simp add: c_def)
  then have "int c < 2 ^ 53" by (metis of_nat_less_numeral_power_cancel_iff)
  then have "fl (of_int (int c)) = of_int (int c)" by (intro fl_of_int) simp
  then have e: "fl (of_nat c * 1) = of_nat c" by simp
  have "\<lfloor>(of_nat c :: rat) + 1 / 2\<rfloor> = int c" by (rule floor_unique) simp_all
  then have "nat \<lfloor>fl (of_nat c * 1) + 1 / 2\<rfloor> = c" by (simp only: e)
  then show ?thesis by (simp only: scaleChannel_def c_def)
qed

lemma hexByte_pair:
  assumes a: "isRadixDigit 16 a" and b: "isRadixDigit 16 b"
  shows "hexByte (16 * hexValue a + hexValue b) = [toLowerCaseChar a, toLowerCaseChar b]"
  using hexDigit_facts(2) [OF a] hexDigit_facts(2) [OF b]
  by (simp add: hexByte_def hexDigit_hexValue [OF a, symmetric] hexDigit_hexValue [OF b, symmetric])

lemma scaleChannel_close:
  assumes a: "isRadixDigit 16 a" and b: "isRadixDigit 16 b" and f: "0 \<le> f" "f \<le> 1"
  shows "\<bar>of_nat (scaleChannel a b f) - of_nat (16 * hexValue a + hexValue b) * f\<bar> \<le> 1 / 2 + 1 / 2 ^ 46"
proof -
  define c where "c = 16 * hexValue a + hexValue b"
  have c: "c \<le> 255" using hexDigit_facts(2) [OF a] hexDigit_facts(2) [OF b] by (simp add: c_def)
  note sb = scaled_bounds [OF f c]
  define x where "x = (of_nat c :: rat) * f"
  define y where "y = fl x"
  have x0: "0 \<le> x" using f by (simp add: x_def)
  have "x \<le> of_nat c * 1" unfolding x_def using f by (intro mult_left_mono) simp_all
  also have "\<dots> \<le> 255" using c by simp
  finally have x1: "x \<le> 255" .
  have "\<bar>x\<bar> < 2 powi 8" using x0 x1 by simp
  then have "\<bar>fl x - x\<bar> \<le> 2 powi (8 - 54)" by (rule fl_error) simp
  then have e1: "\<bar>y - x\<bar> \<le> 1 / 2 ^ 46" by (simp add: y_def power_int_minus field_simps)
  have y0: "0 \<le> y" using sb(1) by (simp only: y_def x_def)
  have n0: "0 \<le> \<lfloor>y + 1 / 2\<rfloor>" using y0 by simp
  have "of_int \<lfloor>y + 1 / 2\<rfloor> \<le> y + 1 / 2" "y + 1 / 2 < of_int \<lfloor>y + 1 / 2\<rfloor> + 1"
    by linarith+
  then have e2: "\<bar>of_int \<lfloor>y + 1 / 2\<rfloor> - y\<bar> \<le> 1 / 2" by linarith
  have s: "(of_nat (scaleChannel a b f) :: rat) = of_int \<lfloor>y + 1 / 2\<rfloor>"
    using n0 by (simp add: scaleChannel_def c_def [symmetric] x_def [symmetric] y_def [symmetric])
  have "\<bar>(of_nat (scaleChannel a b f) :: rat) - x\<bar> \<le> 1 / 2 + 1 / 2 ^ 46"
    unfolding s using e1 e2 by linarith
  then show ?thesis by (simp only: x_def c_def)
qed

lemma lit_Fin: "\<bar>x\<bar> \<le> 2 ^ 64 \<Longrightarrow> lit x = Fin (fl x)"
  by (simp add: lit_def roundToDouble_small)

lemma scaleChannel_eqI:
  assumes "16 * hexValue a + hexValue b = c" and "fl (of_nat c * f) = y"
    and "of_int k \<le> y + 1 / 2" and "y + 1 / 2 < of_int k + 1"
  shows "scaleChannel a b f = nat k"
proof -
  have "\<lfloor>y + 1 / 2\<rfloor> = k" using assms(3,4) by (rule floor_unique)
  then show ?thesis by (simp only: scaleChannel_def assms(1,2))
qed

lemma floor_rat_numeral_div [simp]:
  "\<lfloor>(numeral a :: rat) / numeral b\<rfloor> = numeral a div numeral b"
  using floor_divide_of_int_eq [of "numeral a" "numeral b", where ?'a = rat] by simp

lemma floor_rat_one_div [simp]: "\<lfloor>(1 :: rat) / numeral b\<rfloor> = 1 div numeral b"
  using floor_divide_of_int_eq [of 1 "numeral b", where ?'a = rat] by simp

lemma roundToDouble_zero [simp]: "roundToDouble 0 = Fin 0"
  by (simp add: roundToDouble_small)

lemma roundToDouble_one [simp]: "roundToDouble 1 = Fin 1"
  by (simp add: roundToDouble_small)

lemma hexValue_hexDigit: "v < 16 \<Longrightarrow> hexValue (hexDigit v) = v"
proof -
  assume "v < 16"
  then have "v = 0 \<or> v = 1 \<or> v = 2 \<or> v = 3 \<or> v = 4 \<or> v = 5 \<or> v = 6 \<or> v = 7 \<or> v = 8
    \<or> v = 9 \<or> v = 10 \<or> v = 11 \<or> v = 12 \<or> v = 13 \<or> v = 14 \<or> v = 15" by presburger
  then have "v \<in> {0, 1, 2, 3, 4, 5, 6, 7, 8, 9, 10, 11, 12, 13, 14, 15}" by simp
  then show ?thesis
    by (elim insertE emptyE) (simp_all add: hexValue_def hexDigit_def digitValue_def)
qed

lemma hexValue_toLowerCaseChar:
  assumes "isRadixDigit 16 c" shows "hexValue (toLowerCaseChar c) = hexValue c"
  using hexValue_hexDigit [OF hexDigit_facts(2) [OF assms]]
  by (simp only: hexDigit_hexValue [OF assms])

section \<open>Facts about rounding near an integer and about the luminance\<close>

lemma fl_dyadic_fraction: "\<bar>m\<bar> < 2 ^ 53 \<Longrightarrow> fl (of_int m / 2 ^ j) = of_int m / 2 ^ j" if "j \<le> 1074" for j :: nat
proof -
  assume m: "\<bar>m\<bar> < 2 ^ 53"
  have "fl (of_int m * 2 powi (- int j)) = of_int m * 2 powi (- int j)"
    using m that by (intro fl_representable) simp_all
  then show ?thesis by (simp add: power_int_minus field_simps)
qed

lemma round_fl_near:
  assumes "\<bar>x - of_int k\<bar> \<le> 7 / 16" and "\<bar>k\<bar> < 2 ^ 48"
  shows "\<lfloor>fl x + 1 / 2\<rfloor> = k"
proof -
  have b1: "\<bar>16 * k - 7\<bar> < 2 ^ 53" and b2: "\<bar>16 * k + 7\<bar> < 2 ^ 53" using assms(2) by simp_all
  have e1: "(of_int (16 * k - 7) :: rat) / 2 ^ 4 = of_int k - 7 / 16" by (simp add: field_simps)
  have e2: "(of_int (16 * k + 7) :: rat) / 2 ^ 4 = of_int k + 7 / 16" by (simp add: field_simps)
  have lo: "fl (of_int k - 7 / 16) = of_int k - 7 / 16"
    using fl_dyadic_fraction [of 4 "16 * k - 7"] b1 by (simp only: e1)
  have hi: "fl (of_int k + 7 / 16) = of_int k + 7 / 16"
    using fl_dyadic_fraction [of 4 "16 * k + 7"] b2 by (simp only: e2)
  have "of_int k - 7 / 16 \<le> x" using assms(1) by linarith
  then have "fl (of_int k - 7 / 16) \<le> fl x" by (rule fl_mono)
  then have l: "of_int k - 7 / 16 \<le> fl x" by (simp only: lo)
  have "x \<le> of_int k + 7 / 16" using assms(1) by linarith
  then have "fl x \<le> fl (of_int k + 7 / 16)" by (rule fl_mono)
  then have u: "fl x \<le> of_int k + 7 / 16" by (simp only: hi)
  show ?thesis by (rule floor_unique) (use l u in linarith)+
qed

lemma scaleChannel_near:
  assumes "16 * hexValue a + hexValue b = c"
    and "\<bar>of_nat c * f - of_int k\<bar> \<le> 7 / 16" and "\<bar>k\<bar> < 2 ^ 48"
  shows "scaleChannel a b f = nat k"
  using round_fl_near [OF assms(2,3)] by (simp only: scaleChannel_def assms(1))

text \<open>Dyadic bounds of the three coefficients and of the luminance.\<close>

lemma fl_between:
  assumes "lo \<le> x" and "x \<le> hi" and "fl lo = lo" and "fl hi = hi"
  shows "lo \<le> fl x" and "fl x \<le> hi"
  using fl_mono [OF assms(1)] fl_mono [OF assms(2)] by (simp_all only: assms(3,4))

lemma fl_dyadic: "\<bar>m\<bar> < 2 ^ 53 \<Longrightarrow> fl (of_int m / 16) = of_int m / 16"
  using fl_dyadic_fraction [of 4 m] by simp

lemma luminance_bounds:
  assumes "r \<le> 255" and "g \<le> 255" and "b \<le> (255::nat)"
  shows "\<exists>L. luminance (Fin (of_nat r)) (Fin (of_nat g)) (Fin (of_nat b)) = Fin L
           \<and> of_nat (4 * r + 8 * g + b) / 16 \<le> L \<and> L \<le> of_nat (8 * r + 16 * g + 2 * b) / 16"
proof -
  define R :: rat where "R = of_nat r"
  define G :: rat where "G = of_nat g"
  define B :: rat where "B = of_nat b"
  define D :: "nat \<Rightarrow> rat" where "D = (\<lambda>n. of_nat n / 16)"
  have rb: "0 \<le> R" "0 \<le> G" "0 \<le> B" by (simp_all add: R_def G_def B_def)
  have D0: "\<And>n. 0 \<le> D n" by (simp add: D_def)
  have Dle: "\<And>n k. n \<le> k \<Longrightarrow> D n \<le> of_nat k" by (simp add: D_def field_simps)
  have Dadd: "\<And>m n. D m + D n = D (m + n)" by (simp add: D_def add_divide_distrib)
  have flD: "\<And>n. n \<le> 16320 \<Longrightarrow> fl (D n) = D n"
  proof -
    fix n :: nat assume "n \<le> 16320"
    then have "\<bar>int n\<bar> < 2 ^ 53" by simp
    then have "fl (of_int (int n) / 16) = of_int (int n) / 16" by (rule fl_dyadic)
    then show "fl (D n) = D n" by (simp add: D_def)
  qed
  have small: "\<And>x::rat. 0 \<le> x \<Longrightarrow> x \<le> 2 ^ 20 \<Longrightarrow> roundToDouble x = Fin (fl x)"
    by (rule roundToDouble_small) simp
  define a1 where "a1 = fl (299 / 1000)"
  define a2 where "a2 = fl (587 / 1000)"
  define a3 where "a3 = fl (114 / 1000)"
  have k1: "D 4 \<le> 299 / 1000" "299 / 1000 \<le> D 8" by (simp_all add: D_def)
  have k2: "D 8 \<le> 587 / 1000" "587 / 1000 \<le> D 16" by (simp_all add: D_def)
  have k3: "D 1 \<le> 114 / 1000" "114 / 1000 \<le> D 2" by (simp_all add: D_def)
  have a1: "D 4 \<le> a1" "a1 \<le> D 8"
    unfolding a1_def by (rule fl_between [OF k1 flD flD]; simp)+
  have a2: "D 8 \<le> a2" "a2 \<le> D 16"
    unfolding a2_def by (rule fl_between [OF k2 flD flD]; simp)+
  have a3: "D 1 \<le> a3" "a3 \<le> D 2"
    unfolding a3_def by (rule fl_between [OF k3 flD flD]; simp)+
  have c1: "D 4 * R = D (4 * r)" "D 8 * R = D (8 * r)" by (simp_all add: D_def R_def)
  have c2: "D 8 * G = D (8 * g)" "D 16 * G = D (16 * g)" by (simp_all add: D_def G_def)
  have c3: "D 1 * B = D b" "D 2 * B = D (2 * b)" by (simp_all add: D_def B_def)
  have m1: "D (4 * r) \<le> a1 * R" "a1 * R \<le> D (8 * r)"
    using mult_right_mono [OF a1(1) rb(1)] mult_right_mono [OF a1(2) rb(1)] by (simp_all only: c1)
  have m2: "D (8 * g) \<le> a2 * G" "a2 * G \<le> D (16 * g)"
    using mult_right_mono [OF a2(1) rb(2)] mult_right_mono [OF a2(2) rb(2)] by (simp_all only: c2)
  have m3: "D b \<le> a3 * B" "a3 * B \<le> D (2 * b)"
    using mult_right_mono [OF a3(1) rb(3)] mult_right_mono [OF a3(2) rb(3)] by (simp_all only: c3)
  define p1 where "p1 = fl (a1 * R)"
  define p2 where "p2 = fl (a2 * G)"
  define p3 where "p3 = fl (a3 * B)"
  have p1: "D (4 * r) \<le> p1" "p1 \<le> D (8 * r)"
    unfolding p1_def by (rule fl_between [OF m1 flD flD]; use assms in simp)+
  have p2: "D (8 * g) \<le> p2" "p2 \<le> D (16 * g)"
    unfolding p2_def by (rule fl_between [OF m2 flD flD]; use assms in simp)+
  have p3: "D b \<le> p3" "p3 \<le> D (2 * b)"
    unfolding p3_def by (rule fl_between [OF m3 flD flD]; use assms in simp)+
  have n1: "D (4 * r + 8 * g) \<le> p1 + p2" "p1 + p2 \<le> D (8 * r + 16 * g)"
    using add_mono [OF p1(1) p2(1)] add_mono [OF p1(2) p2(2)] by (simp_all only: Dadd)
  define s1 where "s1 = fl (p1 + p2)"
  have s1: "D (4 * r + 8 * g) \<le> s1" "s1 \<le> D (8 * r + 16 * g)"
    unfolding s1_def by (rule fl_between [OF n1 flD flD]; use assms in simp)+
  have n2: "D (4 * r + 8 * g + b) \<le> s1 + p3" "s1 + p3 \<le> D (8 * r + 16 * g + 2 * b)"
    using add_mono [OF s1(1) p3(1)] add_mono [OF s1(2) p3(2)] by (simp_all only: Dadd)
  define L where "L = fl (s1 + p3)"
  have L: "D (4 * r + 8 * g + b) \<le> L" "L \<le> D (8 * r + 16 * g + 2 * b)"
    unfolding L_def by (rule fl_between [OF n2 flD flD]; use assms in simp)+
  have l1: "lit (299 / 1000) = Fin a1" "lit (587 / 1000) = Fin a2" "lit (114 / 1000) = Fin a3"
    by (simp_all add: lit_Fin a1_def a2_def a3_def)
  have u1: "a1 * R \<le> 2 ^ 20" using m1(2) Dle [of "8 * r" "2 ^ 20"] assms by simp
  have u2: "a2 * G \<le> 2 ^ 20" using m2(2) Dle [of "16 * g" "2 ^ 20"] assms by simp
  have u3: "a3 * B \<le> 2 ^ 20" using m3(2) Dle [of "2 * b" "2 ^ 20"] assms by simp
  have u4: "p1 + p2 \<le> 2 ^ 20" using n1(2) Dle [of "8 * r + 16 * g" "2 ^ 20"] assms by simp
  have u5: "s1 + p3 \<le> 2 ^ 20" using n2(2) Dle [of "8 * r + 16 * g + 2 * b" "2 ^ 20"] assms by simp
  have z1: "0 \<le> a1 * R" using m1(1) D0 [of "4 * r"] by linarith
  have z2: "0 \<le> a2 * G" using m2(1) D0 [of "8 * g"] by linarith
  have z3: "0 \<le> a3 * B" using m3(1) D0 [of b] by linarith
  have z4: "0 \<le> p1 + p2" using n1(1) D0 [of "4 * r + 8 * g"] by linarith
  have z5: "0 \<le> s1 + p3" using n2(1) D0 [of "4 * r + 8 * g + b"] by linarith
  have q1: "num_mul (Fin a1) (Fin R) = Fin p1"
    unfolding num_mul.simps p1_def using z1 u1 by (rule small)
  have q2: "num_mul (Fin a2) (Fin G) = Fin p2"
    unfolding num_mul.simps p2_def using z2 u2 by (rule small)
  have q3: "num_mul (Fin a3) (Fin B) = Fin p3"
    unfolding num_mul.simps p3_def using z3 u3 by (rule small)
  have q4: "num_add (Fin p1) (Fin p2) = Fin s1"
    unfolding num_add.simps s1_def using z4 u4 by (rule small)
  have q5: "num_add (Fin s1) (Fin p3) = Fin L"
    unfolding num_add.simps L_def using z5 u5 by (rule small)
  have "luminance (Fin R) (Fin G) (Fin B) = Fin L"
    by (simp only: luminance_def l1 q1 q2 q3 q4 q5)
  with L show ?thesis unfolding R_def G_def B_def D_def by blast
qed

section \<open>Facts about the values of rgbaToHex and about the overrides\<close>

lemma getProperty_truthy_cases:
  "getProperty namedColors k = Undefined \<or> truthy (getProperty namedColors k)"
proof (cases "map_of namedColors k")
  case None
  show ?thesis
  proof (cases "map_of objectPrototype k")
    case None
    with \<open>map_of namedColors k = None\<close> show ?thesis by (simp add: getProperty_def)
  next
    case (Some v)
    then have "(k, v) \<in> set objectPrototype" by (rule map_of_SomeD)
    then have "truthy v" by (auto simp: objectPrototype_def)
    with Some \<open>map_of namedColors k = None\<close> show ?thesis by (simp add: getProperty_def)
  qed
next
  case (Some v)
  then have "(k, v) \<in> set namedColors" by (rule map_of_SomeD)
  then have "v \<noteq> []" by (auto simp: namedColors_def)
  with Some show ?thesis by (simp add: getProperty_def)
qed

lemma rgbaToHex_truthy: "truthy (rgbaToHex v)"
proof (cases v)
  case (Str s)
  show ?thesis
  proof (cases "s = []")
    case True
    with Str show ?thesis by simp
  next
    case ne: False
    show ?thesis
    proof (cases "startsWith (trim s) (utf16 ''#'')")
      case True
      then obtain t where t: "trim s = of_char CHR ''#'' # t" unfolding startsWith_hash by auto
      show ?thesis unfolding Str rgbaToHex_hash [OF True] by (simp add: t)
    next
      case nh: False
      show ?thesis
      proof (cases "re_search rgbRegex (trim s)")
        case (Some caps)
        show ?thesis unfolding Str rgbaToHex_rgb [OF ne nh Some] by simp
      next
        case nr: None
        show ?thesis
        proof (cases "re_search hslRegex (trim s)")
          case (Some caps)
          show ?thesis unfolding Str rgbaToHex_hsl [OF ne nh nr Some] by (simp add: hslToHex_def Let_def)
        next
          case None
          show ?thesis unfolding Str rgbaToHex_other [OF ne nh nr None] by simp
        qed
      qed
    qed
  qed
qed simp_all

lemma docsOverride_frame:
  assumes "docsOverride pal css = Inr c"
  shows "background c = background pal"
    and "truthy (css_primary css) \<Longrightarrow> primary c = rgbaToHex (css_primary css)"
    and "truthy (css_primary css) \<Longrightarrow> \<exists>d. darkenHex (primary c) darkenFactor = Inr d \<and> secondary c = Str d"
    and "\<not> truthy (css_primary css) \<Longrightarrow> primary c = primary pal \<and> secondary c = secondary pal"
    and "accent c = (if truthy (css_accent css) then rgbaToHex (css_accent css) else accent pal)"
  using assms by (auto simp: docsOverride_def Let_def split: if_splits sum.splits)

lemma urlOverride_None: "urlOverride pal None = Inr pal"
  by (simp add: urlOverride_def)

lemma urlOverride_frame:
  assumes "urlOverride pal (Some css) = Inr c"
  shows "background c = background pal"
    and "truthy (css_primary css) \<Longrightarrow> primary c = css_primary css"
    and "truthy (css_primary css) \<Longrightarrow> \<exists>d. darkenHex (primary c) darkenFactor = Inr d \<and> secondary c = Str d"
    and "\<not> truthy (css_primary css) \<Longrightarrow> primary c = primary pal \<and> secondary c = secondary pal"
    and "accent c = (if truthy (css_accent css) then css_accent css else accent pal)"
  using assms by (auto simp: urlOverride_def Let_def split: if_splits sum.splits)

lemma resolvedPrimary_truthy:
  "truthy (resolvedPrimary sg) = (truthy (sig_primary sg) \<or> truthy (sig_buttonBg sg) \<or> truthy (sig_linkColor sg))"
  by (simp add: resolvedPrimary_def rgbaToHex_truthy)


text \<open>Evaluation of the example pages.\<close>

lemma trim_rgb_example: "trim (utf16 '' rgb(10, 20, 30)'') = utf16 ''rgb(10, 20, 30)''"
  by (simp add: trim_def isWhiteSpace_def)

lemma docsCssColors_variablePage:
  "docsCssColors (Some variablePage) = \<lparr>css_primary = Str (utf16 ''rgb(10, 20, 30)''), css_accent = Null\<rparr>"
  by (simp add: docsCssColors_def docsPrimaryVar_def docsAccentVar_def docsButtonBg_def
      variablePage_def js_or_def trim_rgb_example [simplified] trim_Nil)

lemma docsCssColors_linkOnlyPage:
  "docsCssColors (Some linkOnlyPage) = \<lparr>css_primary = Null, css_accent = Null\<rparr>"
  by (simp add: docsCssColors_def docsPrimaryVar_def docsAccentVar_def docsButtonBg_def
      linkOnlyPage_def js_or_def trim_Nil)

lemma docsCssColors_None: "docsCssColors None = \<lparr>css_primary = Null, css_accent = Null\<rparr>"
  by (simp add: docsCssColors_def)

lemma urlCssSignals_variablePage:
  "urlCssSignals (Some variablePage) = \<lparr>sig_primary = Str (utf16 ''rgb(10, 20, 30)''), sig_accent = Null,
     sig_buttonBg = Str (utf16 ''rgb(0, 128, 0)''), sig_linkColor = Str (utf16 ''rgb(0, 102, 204)'')\<rparr>"
  by (simp add: urlCssSignals_def variablePage_def trim_rgb_example [simplified] trim_Nil)

lemma urlCssSignals_linkOnlyPage:
  "urlCssSignals (Some linkOnlyPage) = \<lparr>sig_primary = Null, sig_accent = Null,
     sig_buttonBg = Null, sig_linkColor = Str (utf16 ''rgb(0, 102, 204)'')\<rparr>"
  by (simp add: urlCssSignals_def linkOnlyPage_def trim_Nil)

lemma urlCssSignals_None:
  "urlCssSignals None = \<lparr>sig_primary = Null, sig_accent = Null, sig_buttonBg = Null, sig_linkColor = Null\<rparr>"
  by (simp add: urlCssSignals_def)

section \<open>Facts about decimal channels\<close>

lemma decimalDigit_range: "isRadixDigit 10 c = (48 \<le> c \<and> c \<le> 57)"
  by (auto simp: isRadixDigit_def digitValue_def Let_def)

lemma decimalDigit_facts:
  assumes "isRadixDigit 10 c"
  shows "\<not> isWhiteSpace c" and "c \<noteq> of_char CHR ''+''" and "c \<noteq> of_char CHR ''-''" and "c \<noteq> of_char CHR ''x''"
    and "c \<noteq> of_char CHR ''X''" and "c \<noteq> of_char CHR ''.''" and "c \<noteq> of_char CHR '',''" and "c \<noteq> of_char CHR ''%''"
  using assms by (auto simp: decimalDigit_range isWhiteSpace_def)

lemma digitsValue_nonneg: "0 \<le> digitsValue R z"
proof -
  have "0 \<le> acc \<Longrightarrow> 0 \<le> foldl (\<lambda>acc c. acc * int R + (case digitValue c of Some v \<Rightarrow> int v | None \<Rightarrow> 0)) acc z" for acc
  proof (induction z arbitrary: acc)
    case Nil
    then show ?case by simp
  next
    case (Cons c z)
    have "0 \<le> acc * int R + (case digitValue c of Some v \<Rightarrow> int v | None \<Rightarrow> 0)"
      using Cons.prems by (simp split: option.splits)
    from Cons.IH [OF this] show ?case by simp
  qed
  then show ?thesis by (simp add: digitsValue_def)
qed

lemma parseInt_decimal:
  assumes "z \<noteq> []" and "list_all (isRadixDigit 10) z"
  shows "parseInt z None = roundToDouble (of_int (digitsValue 10 z))"
proof -
  obtain c t where z: "z = c # t" using assms(1) by (cases z) auto
  have c: "isRadixDigit 10 c" using assms(2) z by simp
  note f = decimalDigit_facts [OF c]
  have ts: "trimStart z = z" using f(1) by (simp add: trimStart_def z)
  have p: "take 2 z \<noteq> utf16 ''0x''" "take 2 z \<noteq> utf16 ''0X''"
  proof -
    show "take 2 z \<noteq> utf16 ''0x''"
    proof (cases t)
      case Nil
      then show ?thesis by (simp add: z)
    next
      case (Cons d u)
      then have "isRadixDigit 10 d" using assms(2) z by simp
      from decimalDigit_facts(4) [OF this] show ?thesis by (simp add: z Cons)
    qed
    show "take 2 z \<noteq> utf16 ''0X''"
    proof (cases t)
      case Nil
      then show ?thesis by (simp add: z)
    next
      case (Cons d u)
      then have "isRadixDigit 10 d" using assms(2) z by simp
      from decimalDigit_facts(5) [OF this] show ?thesis by (simp add: z Cons)
    qed
  qed
  have tw: "takeWhile (isRadixDigit 10) z = z"
    using assms(2) by (simp add: takeWhile_eq_all_conv list_all_iff)
  have h: "hd z \<noteq> of_char CHR ''+''" "hd z \<noteq> of_char CHR ''-''" using f by (simp_all add: z)
  show ?thesis
    unfolding parseInt_def ts Let_def using assms(1) h p by (simp add: tw)
qed

lemma rgb_channel:
  assumes "z \<noteq> []" and "list_all (isRadixDigit 10) z" and "digitsValue 10 z \<le> 255"
  shows "padStart 2 (of_char CHR ''0'') (toString16 (parseInt z None)) = hexByte (nat (digitsValue 10 z))"
proof -
  define n where "n = nat (digitsValue 10 z)"
  have v: "digitsValue 10 z = int n" using digitsValue_nonneg [of 10 z] by (simp add: n_def)
  have n: "n < 256" using assms(3) v by simp
  then have "n < 2 ^ 53" by simp
  then have r: "roundToDouble (of_nat n) = Fin (of_nat n)" by (rule roundToDouble_of_nat)
  have "parseInt z None = Fin (of_nat n)"
    unfolding parseInt_decimal [OF assms(1,2)] v using r by simp
  then have "toString16 (parseInt z None) = toHex n" by simp
  then show ?thesis using padStart_toHex [OF n] by (simp add: n_def)
qed

lemma rgbRegex_example1: "re_search rgbRegex (utf16 ''rgb(10, 20, 30)'') = Some [utf16 ''10'', utf16 ''20'', utf16 ''30'']"
  by (simp add: rgbRegex_def isWhiteSpace_def decimalDigit_range)

lemma rgbRegex_example2: "re_search rgbRegex (utf16 ''rgb(0, 102, 204)'') = Some [utf16 ''0'', utf16 ''102'', utf16 ''204'']"
  by (simp add: rgbRegex_def isWhiteSpace_def decimalDigit_range)

lemma digitsValue_examples:
  "digitsValue 10 (utf16 ''10'') = 10" "digitsValue 10 (utf16 ''20'') = 20" "digitsValue 10 (utf16 ''30'') = 30"
  "digitsValue 10 (utf16 ''0'') = 0" "digitsValue 10 (utf16 ''102'') = 102" "digitsValue 10 (utf16 ''204'') = 204"
  by (simp_all add: digitsValue_def digitValue_def)

lemma rgbaToHex_example1: "rgbaToHex (Str (utf16 ''rgb(10, 20, 30)'')) = Str (utf16 ''#0a141e'')"
proof -
  have t: "trim (utf16 ''rgb(10, 20, 30)'') = utf16 ''rgb(10, 20, 30)''"
    by (rule trim_noop) (simp_all add: isWhiteSpace_def)
  have "rgbaToHex (Str (utf16 ''rgb(10, 20, 30)'')) =
    Str (of_char CHR ''#'' # concat (map (\<lambda>c. padStart 2 (of_char CHR ''0'') (toString16 (parseInt c None))) [utf16 ''10'', utf16 ''20'', utf16 ''30'']))"
    by (rule rgbaToHex_rgb) (simp_all only: t rgbRegex_example1, simp_all add: startsWith_def)
  also have "\<dots> = Str (of_char CHR ''#'' # hexByte 10 @ hexByte 20 @ hexByte 30)"
    using rgb_channel [of "utf16 ''10''"] rgb_channel [of "utf16 ''20''"] rgb_channel [of "utf16 ''30''"]
    by (simp add: digitsValue_examples [simplified] decimalDigit_range)
  also have "\<dots> = Str (utf16 ''#0a141e'')" by (simp add: hexByte_def hexDigit_def)
  finally show ?thesis .
qed

lemma rgbaToHex_example2: "rgbaToHex (Str (utf16 ''rgb(0, 102, 204)'')) = Str (utf16 ''#0066cc'')"
proof -
  have t: "trim (utf16 ''rgb(0, 102, 204)'') = utf16 ''rgb(0, 102, 204)''"
    by (rule trim_noop) (simp_all add: isWhiteSpace_def)
  have "rgbaToHex (Str (utf16 ''rgb(0, 102, 204)'')) =
    Str (of_char CHR ''#'' # concat (map (\<lambda>c. padStart 2 (of_char CHR ''0'') (toString16 (parseInt c None))) [utf16 ''0'', utf16 ''102'', utf16 ''204'']))"
    by (rule rgbaToHex_rgb) (simp_all only: t rgbRegex_example2, simp_all add: startsWith_def)
  also have "\<dots> = Str (of_char CHR ''#'' # hexByte 0 @ hexByte 102 @ hexByte 204)"
    using rgb_channel [of "utf16 ''0''"] rgb_channel [of "utf16 ''102''"] rgb_channel [of "utf16 ''204''"]
    by (simp add: digitsValue_examples [simplified] decimalDigit_range)
  also have "\<dots> = Str (utf16 ''#0066cc'')" by (simp add: hexByte_def hexDigit_def)
  finally show ?thesis .
qed

section \<open>Facts about the darkening factor\<close>

text \<open>With the factor of the orchestrators, a channel \<open>c\<close> becomes the integer nearest to
  \<open>3 c / 5\<close>, which is \<open>(3 c + 2) div 5\<close>: the rounding of the factor and of the product
  moves the product by less than the distance of \<open>3 c / 5\<close> to a half.\<close>

lemma scaleChannel_darkenFactor:
  assumes "16 * hexValue a + hexValue b = c" and "c \<le> 255"
  shows "scaleChannel a b (5404319552844595 / 2 ^ 53) = (3 * c + 2) div 5"
proof -
  define f :: rat where "f = 5404319552844595 / 2 ^ 53"
  define k :: int where "k = (3 * int c + 2) div 5"
  define r :: int where "r = (3 * int c + 2) mod 5"
  have r: "0 \<le> r" "r \<le> 4" by (simp_all add: r_def) 
  have "3 * int c + 2 = 5 * k + r" by (simp add: k_def r_def)
  then have "3 * (of_nat c :: rat) + 2 = 5 * of_int k + of_int r"
    by (metis (mono_tags, opaque_lifting) of_int_add of_int_mult of_int_numeral of_int_of_nat_eq)
  then have e: "(of_nat c :: rat) * (3 / 5) - of_int k = (of_int r - 2) / 5" by (simp add: field_simps)
  have "- 2 \<le> (of_int r :: rat) - 2" "(of_int r :: rat) - 2 \<le> 2" using r by simp_all
  then have m: "\<bar>(of_nat c :: rat) * (3 / 5) - of_int k\<bar> \<le> 2 / 5" unfolding e by (simp add: abs_le_iff)
  have d: "\<bar>f - 3 / 5\<bar> \<le> 1 / 2 ^ 13" by (simp add: f_def)
  have c: "(of_nat c :: rat) \<le> 2 ^ 8" using assms(2) by simp
  have "(of_nat c :: rat) * f - of_nat c * (3 / 5) = of_nat c * (f - 3 / 5)"
    by (simp only: right_diff_distrib)
  then have "\<bar>(of_nat c :: rat) * f - of_nat c * (3 / 5)\<bar> = \<bar>of_nat c\<bar> * \<bar>f - 3 / 5\<bar>"
    by (simp only: abs_mult)
  also have "\<dots> = of_nat c * \<bar>f - 3 / 5\<bar>" by simp
  also have "\<dots> \<le> 2 ^ 8 * (1 / 2 ^ 13)"
    by (rule mult_mono [OF c d]) simp_all
  finally have "\<bar>(of_nat c :: rat) * f - of_nat c * (3 / 5)\<bar> \<le> 1 / 32" by simp
  with m have n: "\<bar>(of_nat c :: rat) * f - of_int k\<bar> \<le> 7 / 16" by linarith
  have kb: "\<bar>k\<bar> < 2 ^ 48" using assms(2) by (simp add: k_def)
  have "scaleChannel a b f = nat k" using assms(1) n kb by (rule scaleChannel_near)
  also have "nat k = (3 * c + 2) div 5"
    by (simp add: k_def nat_div_distrib nat_add_distrib nat_mult_distrib)
  finally show ?thesis by (simp only: f_def)
qed

lemma darkenHex_darkenFactor:
  assumes "isRadixDigit 16 d1" "isRadixDigit 16 d2" "isRadixDigit 16 d3"
    "isRadixDigit 16 d4" "isRadixDigit 16 d5" "isRadixDigit 16 d6"
  shows "darkenHex (Str (of_char CHR ''#'' # d1 # d2 # d3 # d4 # d5 # d6 # rest)) darkenFactor
    = Inr (of_char CHR ''#'' # hexByte ((3 * (16 * hexValue d1 + hexValue d2) + 2) div 5)
             @ hexByte ((3 * (16 * hexValue d3 + hexValue d4) + 2) div 5)
             @ hexByte ((3 * (16 * hexValue d5 + hexValue d6) + 2) div 5))"
proof -
  define f :: rat where "f = 5404319552844595 / 2 ^ 53"
  have df: "darkenFactor = Fin f" by (simp only: darkenFactor_eq f_def)
  have fb: "0 \<le> f" "f \<le> 1" by (simp_all add: f_def)
  have b: "16 * hexValue x + hexValue y \<le> 255" if "isRadixDigit 16 x" and "isRadixDigit 16 y" for x y
    using hexDigit_facts(2) [OF that(1)] hexDigit_facts(2) [OF that(2)] by simp
  have s: "\<And>x y. isRadixDigit 16 x \<Longrightarrow> isRadixDigit 16 y \<Longrightarrow>
      scaleChannel x y f = (3 * (16 * hexValue x + hexValue y) + 2) div 5"
    unfolding f_def by (rule scaleChannel_darkenFactor [OF refl b])
  show ?thesis
    unfolding df darkenHex_wellformed [OF assms fb]
    by (simp only: s assms)
qed

lemma hexDigit_examples:
  "isRadixDigit 16 (of_char CHR ''0'')" "isRadixDigit 16 (of_char CHR ''1'')" "isRadixDigit 16 (of_char CHR ''3'')"
  "isRadixDigit 16 (of_char CHR ''4'')" "isRadixDigit 16 (of_char CHR ''6'')" "isRadixDigit 16 (of_char CHR ''9'')"
  "isRadixDigit 16 (of_char CHR ''a'')" "isRadixDigit 16 (of_char CHR ''c'')" "isRadixDigit 16 (of_char CHR ''e'')"
  "isRadixDigit 16 (of_char CHR ''F'')" "isRadixDigit 16 (of_char CHR ''A'')"
  by (simp_all add: isRadixDigit_def digitValue_def)

lemma hexValue_examples:
  "hexValue (of_char CHR ''0'') = 0" "hexValue (of_char CHR ''1'') = 1" "hexValue (of_char CHR ''3'') = 3"
  "hexValue (of_char CHR ''4'') = 4" "hexValue (of_char CHR ''6'') = 6" "hexValue (of_char CHR ''9'') = 9"
  "hexValue (of_char CHR ''a'') = 10" "hexValue (of_char CHR ''c'') = 12" "hexValue (of_char CHR ''e'') = 14"
  "hexValue (of_char CHR ''F'') = 15" "hexValue (of_char CHR ''A'') = 10"
  by (simp_all add: hexValue_def digitValue_def)

lemma darkenHex_example1: "darkenHex (Str (utf16 ''#0a141e'')) darkenFactor = Inr (utf16 ''#060c12'')"
  unfolding list.map
  by (subst darkenHex_darkenFactor)
     (simp_all add: hexDigit_examples [simplified] hexValue_examples [simplified] hexByte_def hexDigit_def)

lemma darkenHex_example2: "darkenHex (Str (utf16 ''#0066cc'')) darkenFactor = Inr (utf16 ''#003d7a'')"
  unfolding list.map
  by (subst darkenHex_darkenFactor)
     (simp_all add: hexDigit_examples [simplified] hexValue_examples [simplified] hexByte_def hexDigit_def)

lemma darkenHex_example3: "darkenHex (Str (utf16 ''#336699'')) darkenFactor = Inr (utf16 ''#1f3d5c'')"
  unfolding list.map
  by (subst darkenHex_darkenFactor)
     (simp_all add: hexDigit_examples [simplified] hexValue_examples [simplified] hexByte_def hexDigit_def)

lemma darkenHex_example4: "darkenHex (Str (utf16 ''#0066FF'')) darkenFactor = Inr (utf16 ''#003d99'')"
  unfolding list.map
  by (subst darkenHex_darkenFactor)
     (simp_all add: hexDigit_examples [simplified] hexValue_examples [simplified] hexByte_def hexDigit_def)

section \<open>Facts about detectTheme\<close>

text \<open>The channels \<^verbatim>\<open>(rgb >> n) & 0xff\<close> of a number below \<open>2^31\<close>.\<close>

lemma channel_nonneg:
  assumes "0 \<le> N" and "N < 2 ^ 31"
  shows "channel (toInt32 (Fin (of_int N))) n = Fin (of_int (N div 2 ^ n mod 256))"
proof -
  have w: "toInt32 (Fin (of_int N)) = word_of_int N" using assms(1) by simp
  have s: "sint (word_of_int N :: 32 word) = N"
    using assms by (simp add: sint_sbintrunc' signed_take_bit_int_eq_self)
  have m: "(255 :: int) = mask 8" by (simp add: mask_eq_exp_minus_1)
  have "sint (signed_drop_bit n (word_of_int N :: 32 word) AND 255) = drop_bit n N AND 255"
    by (simp add: signed_and_eq sint_signed_drop_bit_eq s)
  also have "\<dots> = take_bit 8 (drop_bit n N)" by (simp only: m take_bit_eq_mask)
  also have "\<dots> = N div 2 ^ n mod 256" by (simp add: take_bit_eq_mod drop_bit_eq_div)
  finally show ?thesis by (simp only: channel_def w)
qed

lemma detectTheme_number:
  assumes "background c = Str (of_char CHR ''#'' # t)" and "6 \<le> length t"
    and "parseInt t (Some 16) = Fin (of_int N)" and "0 \<le> N" and "N < 2 ^ 31"
    and "luminance (Fin (of_int (N div 2 ^ 16 mod 256))) (Fin (of_int (N div 2 ^ 8 mod 256)))
           (Fin (of_int (N div 2 ^ 0 mod 256))) = Fin L"
  shows "detectTheme c = Inr (if 128 < L then light else dark)"
proof -
  have g: "\<not> (of_char CHR ''#'' # t = [] \<or> \<not> startsWith (of_char CHR ''#'' # t) (utf16 ''#'') \<or> length (of_char CHR ''#'' # t) < 7)"
    using assms(2) by (simp add: startsWith_def)
  have d: "drop 1 (of_char CHR ''#'' # t) = t" by simp
  have n: "\<not> isNaN (Fin (of_int N))" by (simp add: isNaN_def)
  have l: "num_less (Fin 128) (Fin L) = (128 < L)" by simp
  show ?thesis
    unfolding detectTheme.simps assms(1) js_value.case if_not_P [OF g] d assms(3) Let_def
      if_not_P [OF n] channel_nonneg [OF assms(4,5)] assms(6) l
    by simp
qed

lemma parseInt_1A1A1A: "parseInt (utf16 ''1A1A1A'') (Some 16) = Fin (of_int 1710618)"
proof -
  have "roundToDouble (of_nat 1710618) = Fin (of_nat 1710618)" by (rule roundToDouble_of_nat) simp
  then show ?thesis
    by (simp add: parseInt_def trimStart_def isWhiteSpace_def isRadixDigit_def digitValue_def
        digitsValue_def Let_def)
qed

lemma parseInt_FFFFFF: "parseInt (utf16 ''FFFFFF'') (Some 16) = Fin (of_int 16777215)"
proof -
  have "roundToDouble (of_nat 16777215) = Fin (of_nat 16777215)" by (rule roundToDouble_of_nat) simp
  then show ?thesis
    by (simp add: parseInt_def trimStart_def isWhiteSpace_def isRadixDigit_def digitValue_def
        digitsValue_def Let_def)
qed

lemma detectTheme_dark_example:
  assumes "background c = Str (utf16 ''#1A1A1A'')"
  shows "detectTheme c = Inr dark"
proof -
  obtain L where L: "luminance (Fin (of_nat 26)) (Fin (of_nat 26)) (Fin (of_nat 26)) = Fin L"
    "L \<le> of_nat (8 * 26 + 16 * 26 + 2 * 26) / 16"
    using luminance_bounds [of 26 26 26] by auto
  have n: "\<not> 128 < L" using L(2) by simp
  have a: "background c = Str (of_char CHR ''#'' # utf16 ''1A1A1A'')" using assms by simp
  have "detectTheme c = Inr (if 128 < L then light else dark)"
    using a
  proof (rule detectTheme_number)
    show "parseInt (utf16 ''1A1A1A'') (Some 16) = Fin (of_int 1710618)" by (rule parseInt_1A1A1A)
    show "luminance (Fin (of_int (1710618 div 2 ^ 16 mod 256))) (Fin (of_int (1710618 div 2 ^ 8 mod 256)))
           (Fin (of_int (1710618 div 2 ^ 0 mod 256))) = Fin L"
      using L(1) by simp
  qed simp_all
  with n show ?thesis by simp
qed

lemma detectTheme_light_example:
  assumes "background c = Str (utf16 ''#FFFFFF'')"
  shows "detectTheme c = Inr light"
proof -
  obtain L where L: "luminance (Fin (of_nat 255)) (Fin (of_nat 255)) (Fin (of_nat 255)) = Fin L"
    "of_nat (4 * 255 + 8 * 255 + 255) / 16 \<le> L"
    using luminance_bounds [of 255 255 255] by auto
  have n: "128 < L" using L(2) by simp
  have a: "background c = Str (of_char CHR ''#'' # utf16 ''FFFFFF'')" using assms by simp
  have "detectTheme c = Inr (if 128 < L then light else dark)"
    using a
  proof (rule detectTheme_number)
    show "parseInt (utf16 ''FFFFFF'') (Some 16) = Fin (of_int 16777215)" by (rule parseInt_FFFFFF)
    show "luminance (Fin (of_int (16777215 div 2 ^ 16 mod 256))) (Fin (of_int (16777215 div 2 ^ 8 mod 256)))
           (Fin (of_int (16777215 div 2 ^ 0 mod 256))) = Fin L"
      using L(1) by simp
  qed simp_all
  with n show ?thesis by simp
qed

section \<open>The orchestrators on the example inputs\<close>

text \<open>Evaluation of the orchestrators on the example inputs.\<close>

lemma replaceFirst_www: "replaceFirst ''www.'' [] ''www.example.com'' = ''example.com''"
  by (simp del: list.map)

lemma extractLogoFromCloud_example:
  "extractLogoFromCloud originOf (exampleNetwork ''https://logo.clearbit.com/example.com'')
       ''example.com'' pageUrl ws
     = Inr (\<lparr>url = ''https://logo.clearbit.com/example.com'', quality = high\<rparr>, ws,
            [''https://logo.clearbit.com/example.com''])"
  by (simp add: extractLogoFromCloud_def exampleNetwork_def clearbitUrl_def del: list.map)

lemma docsOverride_variablePage:
  "docsOverride samplePalette (docsCssColors (Some variablePage))
     = Inr \<lparr>primary = Str (utf16 ''#0a141e''), secondary = Str (utf16 ''#060c12''),
            accent = Str (utf16 ''#66B3FF''), background = Str (utf16 ''#1A1A1A'')\<rparr>"
  by (simp add: docsOverride_def docsCssColors_variablePage rgbaToHex_example1 darkenHex_example1
      samplePalette_def Let_def del: list.map rgbaToHex.simps darkenHex.simps)

lemma docsOverride_no_signal:
  "docsOverride pal \<lparr>css_primary = Null, css_accent = Null\<rparr> = Inr pal"
  by (simp add: docsOverride_def del: list.map)

lemma colorResult_variablePage:
  "colorResult (urlCssSignals (Some variablePage))
     = Some \<lparr>css_primary = Str (utf16 ''#0a141e''), css_accent = Null\<rparr>"
  by (simp add: colorResult_def resolvedPrimary_def resolvedAccent_def urlCssSignals_variablePage
      rgbaToHex_example1 js_or_def del: list.map rgbaToHex.simps)

lemma colorResult_linkOnlyPage:
  "colorResult (urlCssSignals (Some linkOnlyPage))
     = Some \<lparr>css_primary = Str (utf16 ''#0066cc''), css_accent = Null\<rparr>"
  by (simp add: colorResult_def resolvedPrimary_def resolvedAccent_def urlCssSignals_linkOnlyPage
      rgbaToHex_example2 js_or_def del: list.map rgbaToHex.simps)

lemma colorResult_None: "colorResult (urlCssSignals None) = None"
  by (simp add: colorResult_def resolvedPrimary_def resolvedAccent_def urlCssSignals_None js_or_def del: list.map)

lemma urlOverride_variablePage:
  "urlOverride samplePalette (colorResult (urlCssSignals (Some variablePage)))
     = Inr \<lparr>primary = Str (utf16 ''#0a141e''), secondary = Str (utf16 ''#060c12''),
            accent = Str (utf16 ''#66B3FF''), background = Str (utf16 ''#1A1A1A'')\<rparr>"
  by (simp add: urlOverride_def colorResult_variablePage darkenHex_example1
      samplePalette_def del: list.map darkenHex.simps)

lemma urlOverride_linkOnlyPage:
  "urlOverride samplePalette (colorResult (urlCssSignals (Some linkOnlyPage)))
     = Inr \<lparr>primary = Str (utf16 ''#0066cc''), secondary = Str (utf16 ''#003d7a''),
            accent = Str (utf16 ''#66B3FF''), background = Str (utf16 ''#1A1A1A'')\<rparr>"
  by (simp add: urlOverride_def colorResult_linkOnlyPage darkenHex_example2
      samplePalette_def del: list.map darkenHex.simps)

lemma extractBrandingWithCssColors_variablePage:
  "extractBrandingWithCssColors originOf (exampleNetwork ''https://logo.clearbit.com/example.com'')
      (Some variablePage) samplePalette ''https://www.example.com/docs'' ''www.example.com'' []
   = Inr (\<lparr>logo = \<lparr>url = ''https://logo.clearbit.com/example.com'', quality = high\<rparr>,
           colors = \<lparr>primary = Str (utf16 ''#0a141e''), secondary = Str (utf16 ''#060c12''),
                      accent = Str (utf16 ''#66B3FF''), background = Str (utf16 ''#1A1A1A'')\<rparr>,
           font = ''system-ui, -apple-system, sans-serif'', theme = dark\<rparr>,
          [], [''https://logo.clearbit.com/example.com''])"
  unfolding extractBrandingWithCssColors_def replaceFirst_www Let_def extractLogoFromCloud_example
    docsOverride_variablePage
  by (simp add: detectTheme_dark_example del: list.map detectTheme.simps)

lemma extractBrandingWithCssColors_linkOnlyPage:
  "extractBrandingWithCssColors originOf (exampleNetwork ''https://logo.clearbit.com/example.com'')
      (Some linkOnlyPage) samplePalette ''https://www.example.com/docs'' ''www.example.com'' []
   = Inr (\<lparr>logo = \<lparr>url = ''https://logo.clearbit.com/example.com'', quality = high\<rparr>,
           colors = \<lparr>primary = Str (utf16 ''#336699''), secondary = Str (utf16 ''#FFCC00''),
                      accent = Str (utf16 ''#66B3FF''), background = Str (utf16 ''#1A1A1A'')\<rparr>,
           font = ''system-ui, -apple-system, sans-serif'', theme = dark\<rparr>,
          [], [''https://logo.clearbit.com/example.com''])"
  unfolding extractBrandingWithCssColors_def replaceFirst_www Let_def extractLogoFromCloud_example
    docsCssColors_linkOnlyPage docsOverride_no_signal
  by (simp add: detectTheme_dark_example samplePalette_def del: list.map detectTheme.simps)

lemma extractBrandingWithCssColors_no_page:
  "extractBrandingWithCssColors originOf (exampleNetwork ''https://logo.clearbit.com/example.com'')
      None defaultPalette ''https://www.example.com/docs'' ''www.example.com'' []
   = Inr (\<lparr>logo = \<lparr>url = ''https://logo.clearbit.com/example.com'', quality = high\<rparr>,
           colors = \<lparr>primary = Str (utf16 ''#0066FF''), secondary = Str (utf16 ''#003D99''),
                      accent = Str (utf16 ''#66B3FF''), background = Str (utf16 ''#FFFFFF'')\<rparr>,
           font = ''system-ui, -apple-system, sans-serif'', theme = light\<rparr>,
          [], [''https://logo.clearbit.com/example.com''])"
  unfolding extractBrandingWithCssColors_def replaceFirst_www Let_def extractLogoFromCloud_example
    docsCssColors_None docsOverride_no_signal
  by (simp add: detectTheme_light_example defaultPalette_def del: list.map detectTheme.simps)

lemma extractBrandingSimple_example:
  "extractBrandingSimple originOf (exampleNetwork ''https://logo.clearbit.com/example.com'')
      samplePalette ''https://www.example.com/docs'' ''www.example.com'' []
   = Inr (\<lparr>logo = \<lparr>url = ''https://logo.clearbit.com/example.com'', quality = high\<rparr>,
           colors = samplePalette,
           font = ''system-ui, -apple-system, sans-serif'', theme = dark\<rparr>,
          [], [''https://logo.clearbit.com/example.com''])"
  unfolding extractBrandingSimple_def replaceFirst_www Let_def extractLogoFromCloud_example
  by (simp add: detectTheme_dark_example samplePalette_def del: list.map detectTheme.simps)

lemma extractUrlContent_branding_variablePage:
  "extractUrlContent_branding domain None samplePalette
      (colorResult (urlCssSignals (Some variablePage))) []
   = Inr (\<lparr>logo = \<lparr>url = faviconUrl domain, quality = favicon\<rparr>,
           colors = \<lparr>primary = Str (utf16 ''#0a141e''), secondary = Str (utf16 ''#060c12''),
                      accent = Str (utf16 ''#66B3FF''), background = Str (utf16 ''#1A1A1A'')\<rparr>,
           font = ''system-ui, sans-serif'', theme = dark\<rparr>,
          [''Colors extracted from screenshot/CSS analysis. Logo is a low-res favicon fallback.''])"
  unfolding extractUrlContent_branding_def urlOverride_variablePage
  by (simp add: detectTheme_dark_example del: list.map detectTheme.simps)

lemma extractUrlContent_branding_linkOnlyPage:
  "extractUrlContent_branding domain None samplePalette
      (colorResult (urlCssSignals (Some linkOnlyPage))) []
   = Inr (\<lparr>logo = \<lparr>url = faviconUrl domain, quality = favicon\<rparr>,
           colors = \<lparr>primary = Str (utf16 ''#0066cc''), secondary = Str (utf16 ''#003d7a''),
                      accent = Str (utf16 ''#66B3FF''), background = Str (utf16 ''#1A1A1A'')\<rparr>,
           font = ''system-ui, sans-serif'', theme = dark\<rparr>,
          [''Colors extracted from screenshot/CSS analysis. Logo is a low-res favicon fallback.''])"
  unfolding extractUrlContent_branding_def urlOverride_linkOnlyPage
  by (simp add: detectTheme_dark_example del: list.map detectTheme.simps)

lemma extractUrlContent_branding_improve:
  "extractUrlContent_branding domain
      (Some \<lparr>logo = \<lparr>url = ''https://logo.clearbit.com/example.com'', quality = high\<rparr>,
             colors = samplePalette,
             font = ''system-ui, -apple-system, sans-serif'', theme = dark\<rparr>)
      defaultPalette (colorResult (urlCssSignals (Some variablePage))) []
   = Inr (\<lparr>logo = \<lparr>url = ''https://logo.clearbit.com/example.com'', quality = high\<rparr>,
           colors = \<lparr>primary = Str (utf16 ''#0a141e''), secondary = Str (utf16 ''#060c12''),
                      accent = Str (utf16 ''#66B3FF''), background = Str (utf16 ''#1A1A1A'')\<rparr>,
           font = ''system-ui, -apple-system, sans-serif'', theme = dark\<rparr>, [])"
  unfolding extractUrlContent_branding_def
  by (simp add: urlOverride_variablePage del: list.map)

lemma extractUrlContent_branding_no_page:
  "extractUrlContent_branding domain None defaultPalette (colorResult (urlCssSignals None)) []
   = Inr (\<lparr>logo = \<lparr>url = faviconUrl domain, quality = favicon\<rparr>,
           colors = \<lparr>primary = Str (utf16 ''#0066FF''), secondary = Str (utf16 ''#003D99''),
                      accent = Str (utf16 ''#66B3FF''), background = Str (utf16 ''#FFFFFF'')\<rparr>,
           font = ''system-ui, sans-serif'', theme = light\<rparr>,
          [''Colors extracted from screenshot/CSS analysis. Logo is a low-res favicon fallback.''])"
  unfolding extractUrlContent_branding_def colorResult_None urlOverride_None
  by (simp add: detectTheme_light_example defaultPalette_def del: list.map detectTheme.simps)

section \<open>Facts about the palette of a result\<close>

text \<open>The palette of a result is what the override returned.\<close>

lemma extractUrlContent_branding_colors:
  "extractUrlContent_branding domain b0 pal css warnings = Inr (res, ws)
    \<Longrightarrow> urlOverride (case b0 of None \<Rightarrow> pal | Some b \<Rightarrow> colors b) css = Inr (colors res)"
  by (auto simp: extractUrlContent_branding_def split: option.splits sum.splits)

lemma extractBrandingWithCssColors_colors:
  "extractBrandingWithCssColors originOf net pg pal pageUrl domain warnings = Inr (res, ws, reqs)
    \<Longrightarrow> docsOverride pal (docsCssColors pg) = Inr (colors res)"
  by (auto simp: extractBrandingWithCssColors_def Let_def split: sum.splits prod.splits)

lemma extractBrandingSimple_colors:
  "extractBrandingSimple originOf net pal pageUrl hostname warnings = Inr (res, ws, reqs)
    \<Longrightarrow> colors res = pal"
  by (auto simp: extractBrandingSimple_def Let_def split: sum.splits prod.splits)

lemma urlOverride_background:
  "urlOverride pal css = Inr c \<Longrightarrow> background c = background pal"
  by (cases css) (auto simp: urlOverride_None dest: urlOverride_frame(1))

lemma urlOverride_colorResult:
  assumes "urlOverride pal (colorResult sg) = Inr c"
  shows "primary c =
      (if truthy (sig_primary sg) then rgbaToHex (sig_primary sg)
       else if truthy (sig_buttonBg sg) then rgbaToHex (sig_buttonBg sg)
       else if truthy (sig_linkColor sg) then rgbaToHex (sig_linkColor sg)
       else primary pal)"
    and "truthy (sig_primary sg) \<or> truthy (sig_buttonBg sg) \<or> truthy (sig_linkColor sg)
         \<Longrightarrow> \<exists>d. darkenHex (primary c) darkenFactor = Inr d \<and> secondary c = Str d"
    and "\<not> (truthy (sig_primary sg) \<or> truthy (sig_buttonBg sg) \<or> truthy (sig_linkColor sg))
         \<Longrightarrow> primary c = primary pal \<and> secondary c = secondary pal"
proof -
  have t: "truthy (resolvedPrimary sg)
      = (truthy (sig_primary sg) \<or> truthy (sig_buttonBg sg) \<or> truthy (sig_linkColor sg))"
    by (rule resolvedPrimary_truthy)
  have r: "truthy (resolvedPrimary sg) \<Longrightarrow> resolvedPrimary sg =
      (if truthy (sig_primary sg) then rgbaToHex (sig_primary sg)
       else if truthy (sig_buttonBg sg) then rgbaToHex (sig_buttonBg sg)
       else rgbaToHex (sig_linkColor sg))"
    unfolding t by (auto simp: resolvedPrimary_def)
  show "primary c =
      (if truthy (sig_primary sg) then rgbaToHex (sig_primary sg)
       else if truthy (sig_buttonBg sg) then rgbaToHex (sig_buttonBg sg)
       else if truthy (sig_linkColor sg) then rgbaToHex (sig_linkColor sg)
       else primary pal)"
  proof (cases "colorResult sg")
    case None
    then have "\<not> truthy (resolvedPrimary sg)"
      by (auto simp: colorResult_def js_or_def split: if_splits)
    moreover have "c = pal" using assms None by (simp add: urlOverride_None)
    ultimately show ?thesis using t by auto
  next
    case (Some css)
    then have p: "css_primary css = resolvedPrimary sg" by (auto simp: colorResult_def split: if_splits)
    note f = urlOverride_frame [OF assms [unfolded Some]]
    show ?thesis
    proof (cases "truthy (resolvedPrimary sg)")
      case True
      with f(2) p r t show ?thesis by auto
    next
      case False
      with f(4) p t show ?thesis by auto
    qed
  qed
  show "\<exists>d. darkenHex (primary c) darkenFactor = Inr d \<and> secondary c = Str d"
    if s: "truthy (sig_primary sg) \<or> truthy (sig_buttonBg sg) \<or> truthy (sig_linkColor sg)"
  proof -
    have tr: "truthy (resolvedPrimary sg)" using s t by simp
    then obtain css where Some: "colorResult sg = Some css" and p: "css_primary css = resolvedPrimary sg"
      by (auto simp: colorResult_def js_or_def)
    from urlOverride_frame(3) [OF assms [unfolded Some]] tr p show ?thesis by simp
  qed
  show "primary c = primary pal \<and> secondary c = secondary pal"
    if s: "\<not> (truthy (sig_primary sg) \<or> truthy (sig_buttonBg sg) \<or> truthy (sig_linkColor sg))"
  proof (cases "colorResult sg")
    case None
    then show ?thesis using assms by (simp add: urlOverride_None)
  next
    case (Some css)
    then have p: "css_primary css = resolvedPrimary sg" by (auto simp: colorResult_def split: if_splits)
    from urlOverride_frame(4) [OF assms [unfolded Some]] p s t show ?thesis by simp
  qed
qed

lemma docsOverride_docsCssColors:
  assumes "docsOverride pal (docsCssColors (Some p)) = Inr c"
  shows "primary c =
      (if truthy (docsPrimaryVar p) then rgbaToHex (docsPrimaryVar p)
       else if truthy (docsButtonBg p) then rgbaToHex (docsButtonBg p)
       else primary pal)"
    and "truthy (docsPrimaryVar p) \<or> truthy (docsButtonBg p)
         \<Longrightarrow> \<exists>d. darkenHex (primary c) darkenFactor = Inr d \<and> secondary c = Str d"
    and "\<not> (truthy (docsPrimaryVar p) \<or> truthy (docsButtonBg p))
         \<Longrightarrow> primary c = primary pal \<and> secondary c = secondary pal"
proof -
  have p: "css_primary (docsCssColors (Some p)) = js_or (docsPrimaryVar p) (docsButtonBg p)"
    by (simp add: docsCssColors_def)
  have t: "truthy (js_or (docsPrimaryVar p) (docsButtonBg p))
      = (truthy (docsPrimaryVar p) \<or> truthy (docsButtonBg p))"
    by (simp add: js_or_def)
  note f = docsOverride_frame [OF assms, unfolded p t]
  show "primary c =
      (if truthy (docsPrimaryVar p) then rgbaToHex (docsPrimaryVar p)
       else if truthy (docsButtonBg p) then rgbaToHex (docsButtonBg p)
       else primary pal)"
    using f(2) f(4) by (auto simp: js_or_def)
  show "\<exists>d. darkenHex (primary c) darkenFactor = Inr d \<and> secondary c = Str d"
    if "truthy (docsPrimaryVar p) \<or> truthy (docsButtonBg p)"
    using f(3) that by simp
  show "primary c = primary pal \<and> secondary c = secondary pal"
    if "\<not> (truthy (docsPrimaryVar p) \<or> truthy (docsButtonBg p))"
    using f(4) that by simp
qed

lemma docsOverride_None_page:
  "docsOverride pal (docsCssColors None) = Inr pal"
  by (simp add: docsCssColors_None docsOverride_no_signal)

section \<open>The logo resolver always answers\<close>

text \<open>
  Claim C3 says that the resolver never fails, for every page URL. The statement
  \<^verbatim>\<open>const origin = new URL(fullUrl).origin\<close> stands between the two \<^verbatim>\<open>try\<close> blocks, inside
  neither: when the Clearbit request does not answer 200 and the page URL is a string that
  \<^verbatim>\<open>new URL\<close> rejects, such as \<^verbatim>\<open>not a url\<close>, the call raises a TypeError and returns no result.
\<close>

theorem extractLogoFromCloud_raises_on_bad_url:
  "extractLogoFromCloud (\<lambda>u. None) (exampleNetwork []) ''example.com'' ''not a url'' [''w'']
     = Inl TypeError"
  by (simp add: extractLogoFromCloud_def exampleNetwork_def clearbitUrl_def)

text \<open>
  Claim C3, for the page URLs that are URLs. \<open>extractLogoFromCloud\<close> returns one result for
  every domain, every page URL that \<^verbatim>\<open>new URL\<close> accepts and every behaviour of the network. If
  the Clearbit request answers 200, the result is that URL with quality \<open>high\<close> and no
  other request is made (then the page URL is not even parsed). Otherwise the six common
  paths are requested in their listed order and the first that answers 200 is returned with
  quality \<open>medium\<close>, no later path being requested. If none does, the favicon URL of the
  domain is returned with quality \<open>favicon\<close>, and exactly one warning is appended to the
  warnings list. When the Clearbit request does not answer 200 and the page URL is not a
  URL, the call raises a TypeError.
\<close>

theorem extractLogoFromCloud_tiers:
  "(net 0 (clearbitUrl domain) = Responds 200 \<longrightarrow>
      extractLogoFromCloud originOf net domain fullUrl warnings
        = Inr (\<lparr>url = clearbitUrl domain, quality = high\<rparr>, warnings, [clearbitUrl domain]))
   \<and> (originOf fullUrl = Some origin \<and> net 0 (clearbitUrl domain) \<noteq> Responds 200 \<longrightarrow>
        (\<forall>i < 6. (\<forall>j < i. net (Suc j) (commonPaths origin ! j) \<noteq> Responds 200)
              \<and> net (Suc i) (commonPaths origin ! i) = Responds 200 \<longrightarrow>
            extractLogoFromCloud originOf net domain fullUrl warnings
              = Inr (\<lparr>url = commonPaths origin ! i, quality = medium\<rparr>, warnings,
                     clearbitUrl domain # take (Suc i) (commonPaths origin)))
        \<and> ((\<forall>j < 6. net (Suc j) (commonPaths origin ! j) \<noteq> Responds 200) \<longrightarrow>
            extractLogoFromCloud originOf net domain fullUrl warnings
              = Inr (\<lparr>url = faviconUrl domain, quality = favicon\<rparr>,
                     warnings @ [faviconWarning domain],
                     clearbitUrl domain # commonPaths origin)))
   \<and> (originOf fullUrl = Some origin \<longrightarrow>
        (\<exists>res ws reqs. extractLogoFromCloud originOf net domain fullUrl warnings = Inr (res, ws, reqs)))
   \<and> (originOf fullUrl = None \<and> net 0 (clearbitUrl domain) \<noteq> Responds 200 \<longrightarrow>
        extractLogoFromCloud originOf net domain fullUrl warnings = Inl TypeError)"
proof (intro conjI impI allI)
  assume "net 0 (clearbitUrl domain) = Responds 200"
  then show "extractLogoFromCloud originOf net domain fullUrl warnings
        = Inr (\<lparr>url = clearbitUrl domain, quality = high\<rparr>, warnings, [clearbitUrl domain])"
    by (simp add: extractLogoFromCloud_def)
next
  fix i
  assume o: "originOf fullUrl = Some origin \<and> net 0 (clearbitUrl domain) \<noteq> Responds 200"
    and i: "i < 6"
    and h: "(\<forall>j < i. net (Suc j) (commonPaths origin ! j) \<noteq> Responds 200)
              \<and> net (Suc i) (commonPaths origin ! i) = Responds 200"
  have "probeCommonPaths net (commonPaths origin) [clearbitUrl domain]
          = (Some (commonPaths origin ! i), [clearbitUrl domain] @ take (Suc i) (commonPaths origin))"
    by (rule probeCommonPaths_some) (use i h in \<open>simp_all add: length_commonPaths\<close>)
  with o show "extractLogoFromCloud originOf net domain fullUrl warnings
              = Inr (\<lparr>url = commonPaths origin ! i, quality = medium\<rparr>, warnings,
                     clearbitUrl domain # take (Suc i) (commonPaths origin))"
    by (simp add: extractLogoFromCloud_def)
next
  assume o: "originOf fullUrl = Some origin \<and> net 0 (clearbitUrl domain) \<noteq> Responds 200"
    and h: "\<forall>j < 6. net (Suc j) (commonPaths origin ! j) \<noteq> Responds 200"
  have "probeCommonPaths net (commonPaths origin) [clearbitUrl domain]
          = (None, [clearbitUrl domain] @ commonPaths origin)"
    by (rule probeCommonPaths_none) (use h in \<open>simp add: length_commonPaths\<close>)
  with o show "extractLogoFromCloud originOf net domain fullUrl warnings
              = Inr (\<lparr>url = faviconUrl domain, quality = favicon\<rparr>,
                     warnings @ [faviconWarning domain],
                     clearbitUrl domain # commonPaths origin)"
    by (simp add: extractLogoFromCloud_def)
next
  assume o: "originOf fullUrl = Some origin"
  show "\<exists>res ws reqs. extractLogoFromCloud originOf net domain fullUrl warnings = Inr (res, ws, reqs)"
    using o by (auto simp: extractLogoFromCloud_def split: prod.splits option.splits)
next
  assume "originOf fullUrl = None \<and> net 0 (clearbitUrl domain) \<noteq> Responds 200"
  then show "extractLogoFromCloud originOf net domain fullUrl warnings = Inl TypeError"
    by (simp add: extractLogoFromCloud_def)
qed

theorem extractLogoFromCloud_tiers_witness:
  "extractLogoFromCloud (\<lambda>u. None) (exampleNetwork ''https://logo.clearbit.com/example.com'')
       ''example.com'' ''not a url'' [''w'']
     = Inr (\<lparr>url = ''https://logo.clearbit.com/example.com'', quality = high\<rparr>, [''w''],
            [''https://logo.clearbit.com/example.com''])
   \<and> extractLogoFromCloud (\<lambda>u. Some ''https://example.com'') (exampleNetwork ''https://example.com/assets/logo.svg'')
       ''example.com'' ''https://example.com/docs'' [''w'']
     = Inr (\<lparr>url = ''https://example.com/assets/logo.svg'', quality = medium\<rparr>, [''w''],
            [''https://logo.clearbit.com/example.com'', ''https://example.com/logo.svg'',
             ''https://example.com/logo.png'', ''https://example.com/assets/logo.svg''])
   \<and> extractLogoFromCloud (\<lambda>u. Some ''https://example.com'') (exampleNetwork [])
       ''example.com'' ''https://example.com/docs'' [''w'']
     = Inr (\<lparr>url = ''https://www.google.com/s2/favicons?domain=example.com&sz=256'', quality = favicon\<rparr>,
            [''w'', ''No high-quality logo found for example.com. Using Google favicon (256px).''],
            [''https://logo.clearbit.com/example.com'', ''https://example.com/logo.svg'',
             ''https://example.com/logo.png'', ''https://example.com/assets/logo.svg'',
             ''https://example.com/assets/logo.png'', ''https://example.com/images/logo.svg'',
             ''https://example.com/images/logo.png''])"
proof -
  have a: "extractLogoFromCloud (\<lambda>u. None) (exampleNetwork ''https://logo.clearbit.com/example.com'')
       ''example.com'' ''not a url'' [''w'']
     = Inr (\<lparr>url = ''https://logo.clearbit.com/example.com'', quality = high\<rparr>, [''w''],
            [''https://logo.clearbit.com/example.com''])"
    using extractLogoFromCloud_tiers [of "exampleNetwork ''https://logo.clearbit.com/example.com''"
        "''example.com''" "\<lambda>u. None" "''not a url''" "[''w'']"]
    by (simp add: exampleNetwork_def clearbitUrl_def)
  have b: "extractLogoFromCloud (\<lambda>u. Some ''https://example.com'') (exampleNetwork ''https://example.com/assets/logo.svg'')
       ''example.com'' ''https://example.com/docs'' [''w'']
     = Inr (\<lparr>url = ''https://example.com/assets/logo.svg'', quality = medium\<rparr>, [''w''],
            [''https://logo.clearbit.com/example.com'', ''https://example.com/logo.svg'',
             ''https://example.com/logo.png'', ''https://example.com/assets/logo.svg''])"
    using extractLogoFromCloud_tiers [of "exampleNetwork ''https://example.com/assets/logo.svg''"
        "''example.com''" "\<lambda>u. Some ''https://example.com''" "''https://example.com/docs''"
        "[''w'']" "''https://example.com''", THEN conjunct2, THEN conjunct1, THEN mp, THEN conjunct1,
        THEN spec, of 2]
    by (simp add: exampleNetwork_def clearbitUrl_def commonPaths_def eval_nat_numeral All_less_Suc)
  have c: "extractLogoFromCloud (\<lambda>u. Some ''https://example.com'') (exampleNetwork [])
       ''example.com'' ''https://example.com/docs'' [''w'']
     = Inr (\<lparr>url = ''https://www.google.com/s2/favicons?domain=example.com&sz=256'', quality = favicon\<rparr>,
            [''w'', ''No high-quality logo found for example.com. Using Google favicon (256px).''],
            [''https://logo.clearbit.com/example.com'', ''https://example.com/logo.svg'',
             ''https://example.com/logo.png'', ''https://example.com/assets/logo.svg'',
             ''https://example.com/assets/logo.png'', ''https://example.com/images/logo.svg'',
             ''https://example.com/images/logo.png''])"
    using extractLogoFromCloud_tiers [of "exampleNetwork []"
        "''example.com''" "\<lambda>u. Some ''https://example.com''" "''https://example.com/docs''"
        "[''w'']" "''https://example.com''", THEN conjunct2, THEN conjunct1, THEN mp, THEN conjunct2]
    by (simp add: exampleNetwork_def clearbitUrl_def commonPaths_def faviconUrl_def faviconWarning_def eval_nat_numeral All_less_Suc)
  from a b c show ?thesis by blast
qed

section \<open>Strings that start with a hash sign pass through rgbaToHex\<close>

text \<open>
  Claim C10 says that for an input of \<^verbatim>\<open>#\<close> and length 4 each of the three characters after
  \<^verbatim>\<open>#\<close> is duplicated. The test \<^verbatim>\<open>trimmed.length === 4\<close> counts UTF-16 code units, but
  \<^verbatim>\<open>const [, r, g, b] = trimmed\<close> walks code points. The string of \<^verbatim>\<open>#\<close>, the emoji U+1F600
  (the surrogates D83D and DE00, that is 55357 and 56832) and \<^verbatim>\<open>a\<close> has length 4 and is its
  own trimmed form, but only two characters after \<^verbatim>\<open>#\<close>: \<^verbatim>\<open>b\<close> is \<^verbatim>\<open>undefined\<close>, and the
  result ends with the word \<^verbatim>\<open>undefined\<close> twice.
\<close>

theorem rgbaToHex_hash_surrogate_pair:
  "length [of_char CHR ''#'', 55357, 56832, of_char CHR ''a''] = 4
   \<and> trim [of_char CHR ''#'', 55357, 56832, of_char CHR ''a''] = [of_char CHR ''#'', 55357, 56832, of_char CHR ''a'']
   \<and> rgbaToHex (Str [of_char CHR ''#'', 55357, 56832, of_char CHR ''a''])
       = Str (utf16 ''#'' @ [55357, 56832, 55357, 56832] @ utf16 ''aaundefinedundefined'')"
proof -
  have t: "trim [of_char CHR ''#'', 55357, 56832, of_char CHR ''a''] = [of_char CHR ''#'', 55357, 56832, of_char CHR ''a'']"
    by (rule trim_noop) (simp_all add: isWhiteSpace_def)
  show ?thesis
    unfolding rgbaToHex_hash3 [OF t] t
    by (simp add: isHighSurrogate_def isLowSurrogate_def)
qed

text \<open>
  Claim C10, with the inputs of length 4 restricted to those without a surrogate pair. When
  the trimmed input starts with \<^verbatim>\<open>#\<close> and its length is not 4, \<open>rgbaToHex\<close> returns its first
  seven code units as they are: no digit is checked and no letter changes case. When the
  trimmed input is \<^verbatim>\<open>#\<close> and three more code units of which no two neighbours are a
  surrogate pair (so they are three characters), each of the three is doubled, again
  unchecked. When two of them are a surrogate pair, the input is \<^verbatim>\<open>#\<close> and two characters:
  both are doubled and \<^verbatim>\<open>undefinedundefined\<close> follows.
\<close>

theorem rgbaToHex_hash_passthrough:
  "(startsWith (trim s) (utf16 ''#'') \<and> length (trim s) \<noteq> 4 \<longrightarrow> rgbaToHex (Str s) = Str (take 7 (trim s)))
   \<and> (trim s = [of_char CHR ''#'', r, g, b]
        \<and> \<not> (isHighSurrogate r \<and> isLowSurrogate g) \<and> \<not> (isHighSurrogate g \<and> isLowSurrogate b)
      \<longrightarrow> rgbaToHex (Str s) = Str [of_char CHR ''#'', r, r, g, g, b, b])
   \<and> (trim s = [of_char CHR ''#'', r, g, b] \<and> isHighSurrogate r \<and> isLowSurrogate g
      \<longrightarrow> rgbaToHex (Str s) = Str (utf16 ''#'' @ [r, g, r, g, b, b] @ utf16 ''undefinedundefined''))
   \<and> (trim s = [of_char CHR ''#'', r, g, b] \<and> isHighSurrogate g \<and> isLowSurrogate b
      \<longrightarrow> rgbaToHex (Str s) = Str (utf16 ''#'' @ [r, r, g, b, g, b] @ utf16 ''undefinedundefined''))"
proof (intro conjI impI)
  assume a: "startsWith (trim s) (utf16 ''#'') \<and> length (trim s) \<noteq> 4"
  then show "rgbaToHex (Str s) = Str (take 7 (trim s))"
    using rgbaToHex_hash [of s] by simp
next
  assume a: "trim s = [of_char CHR ''#'', r, g, b]
    \<and> \<not> (isHighSurrogate r \<and> isLowSurrogate g) \<and> \<not> (isHighSurrogate g \<and> isLowSurrogate b)"
  then have t: "trim s = [of_char CHR ''#'', r, g, b]" by simp
  show "rgbaToHex (Str s) = Str [of_char CHR ''#'', r, r, g, g, b, b]"
    unfolding rgbaToHex_hash3 [OF t] using a by auto
next
  assume a: "trim s = [of_char CHR ''#'', r, g, b] \<and> isHighSurrogate r \<and> isLowSurrogate g"
  then have t: "trim s = [of_char CHR ''#'', r, g, b]" by simp
  show "rgbaToHex (Str s) = Str (utf16 ''#'' @ [r, g, r, g, b, b] @ utf16 ''undefinedundefined'')"
    unfolding rgbaToHex_hash3 [OF t] using a by simp
next
  assume a: "trim s = [of_char CHR ''#'', r, g, b] \<and> isHighSurrogate g \<and> isLowSurrogate b"
  then have t: "trim s = [of_char CHR ''#'', r, g, b]" by simp
  have n: "(isHighSurrogate r \<and> isLowSurrogate g) = False"
    using a by (auto simp: isHighSurrogate_def isLowSurrogate_def)
  show "rgbaToHex (Str s) = Str (utf16 ''#'' @ [r, r, g, b, g, b] @ utf16 ''undefinedundefined'')"
    unfolding rgbaToHex_hash3 [OF t] n using a by simp
qed

theorem rgbaToHex_hash_passthrough_witness:
  "rgbaToHex (Str (utf16 ''#zzzzzz'')) = Str (utf16 ''#zzzzzz'')
   \<and> rgbaToHex (Str (utf16 ''#FF6600'')) = Str (utf16 ''#FF6600'')
   \<and> rgbaToHex (Str (utf16 '' #FF6600AA'')) = Str (utf16 ''#FF6600'')
   \<and> rgbaToHex (Str (utf16 ''#z!Q '')) = Str (utf16 ''#zz!!QQ'')
   \<and> rgbaToHex (Str [of_char CHR ''#'', of_char CHR ''a'', 55357, 56832])
       = Str (utf16 ''#aa'' @ [55357, 56832, 55357, 56832] @ utf16 ''undefinedundefined'')"
proof -
  have t1: "trim (utf16 ''#zzzzzz'') = utf16 ''#zzzzzz''" by (simp add: trim_def isWhiteSpace_def)
  have t2: "trim (utf16 ''#FF6600'') = utf16 ''#FF6600''" by (simp add: trim_def isWhiteSpace_def)
  have t3: "trim (utf16 '' #FF6600AA'') = utf16 ''#FF6600AA''" by (simp add: trim_def isWhiteSpace_def)
  have t4: "trim (utf16 ''#z!Q '') = utf16 ''#z!Q''" by (simp add: trim_def isWhiteSpace_def)
  have t5: "trim [of_char CHR ''#'', of_char CHR ''a'', 55357, 56832] = [of_char CHR ''#'', of_char CHR ''a'', 55357, 56832]"
    by (simp add: trim_def isWhiteSpace_def)
  show ?thesis
    using rgbaToHex_hash_passthrough [of "utf16 ''#zzzzzz''"]
      rgbaToHex_hash_passthrough [of "utf16 ''#FF6600''"]
      rgbaToHex_hash_passthrough [of "utf16 '' #FF6600AA''"]
      rgbaToHex_hash_passthrough [of "utf16 ''#z!Q ''" "of_char CHR ''z''" "of_char CHR ''!''" "of_char CHR ''Q''"]
      rgbaToHex_hash_passthrough [of "[of_char CHR ''#'', of_char CHR ''a'', 55357, 56832]" "of_char CHR ''a''" 55357 56832]
    by (simp add: t1 [simplified] t2 [simplified] t3 [simplified] t4 [simplified] t5 [simplified]
        startsWith_def isHighSurrogate_def isLowSurrogate_def)
qed

section \<open>darkenHex scales the three channels\<close>

text \<open>
  Claim C7. For a colour string that is \<^verbatim>\<open>#\<close> followed by six hexadecimal digits (more
  characters may follow) and a factor between 0 and 1, \<open>darkenHex\<close> returns \<^verbatim>\<open>#\<close> and, for
  each of the three channels, the two lower-case digits of the channel times the factor,
  rounded to the nearest integer. The product is the double that the multiplication returns;
  it differs from the exact product by at most \<open>2 powi (-46)\<close>, so the rounded value is
  within a half and that much of the exact product, and it is at most 255. Factor 0 gives
  \<^verbatim>\<open>#000000\<close>. Factor 1 gives the six digits of the input, in lower case.
\<close>

theorem darkenHex_scales_channels:
  assumes "isHexDigit d1" "isHexDigit d2" "isHexDigit d3" "isHexDigit d4" "isHexDigit d5" "isHexDigit d6"
    and "0 \<le> f" and "f \<le> 1"
  shows "darkenHex (Str (of_char CHR ''#'' # d1 # d2 # d3 # d4 # d5 # d6 # rest)) (Fin f)
           = Inr (of_char CHR ''#'' # hexByte (scaleChannel d1 d2 f) @ hexByte (scaleChannel d3 d4 f)
                    @ hexByte (scaleChannel d5 d6 f))
       \<and> scaleChannel d1 d2 f \<le> 255 \<and> scaleChannel d3 d4 f \<le> 255 \<and> scaleChannel d5 d6 f \<le> 255
       \<and> \<bar>of_nat (scaleChannel d1 d2 f) - of_nat (16 * hexValue d1 + hexValue d2) * f\<bar> \<le> 1 / 2 + 1 / 2 ^ 46
       \<and> \<bar>of_nat (scaleChannel d3 d4 f) - of_nat (16 * hexValue d3 + hexValue d4) * f\<bar> \<le> 1 / 2 + 1 / 2 ^ 46
       \<and> \<bar>of_nat (scaleChannel d5 d6 f) - of_nat (16 * hexValue d5 + hexValue d6) * f\<bar> \<le> 1 / 2 + 1 / 2 ^ 46
       \<and> darkenHex (Str (of_char CHR ''#'' # d1 # d2 # d3 # d4 # d5 # d6 # rest)) (Fin 0) = Inr (utf16 ''#000000'')
       \<and> darkenHex (Str (of_char CHR ''#'' # d1 # d2 # d3 # d4 # d5 # d6 # rest)) (Fin 1)
           = Inr (of_char CHR ''#'' # map toLowerCaseChar [d1, d2, d3, d4, d5, d6])"
proof -
  have d: "isRadixDigit 16 d1" "isRadixDigit 16 d2" "isRadixDigit 16 d3"
    "isRadixDigit 16 d4" "isRadixDigit 16 d5" "isRadixDigit 16 d6"
    using assms by (simp_all add: isHexDigit_def)
  have f: "0 \<le> f" "f \<le> 1" by fact+
  have zero: "darkenHex (Str (of_char CHR ''#'' # d1 # d2 # d3 # d4 # d5 # d6 # rest)) (Fin 0) = Inr (utf16 ''#000000'')"
    by (simp only: darkenHex_wellformed [OF d, of 0] scaleChannel_0)
       (simp add: hexByte_def hexDigit_def)
  have one: "darkenHex (Str (of_char CHR ''#'' # d1 # d2 # d3 # d4 # d5 # d6 # rest)) (Fin 1)
           = Inr (of_char CHR ''#'' # map toLowerCaseChar [d1, d2, d3, d4, d5, d6])"
    by (simp only: darkenHex_wellformed [OF d, of 1] scaleChannel_1 d hexByte_pair) simp
  show ?thesis
    using darkenHex_wellformed [OF d f, of rest]
      darkenHex_channel(2) [OF d(1,2) f] darkenHex_channel(2) [OF d(3,4) f]
      darkenHex_channel(2) [OF d(5,6) f]
      scaleChannel_close [OF d(1,2) f] scaleChannel_close [OF d(3,4) f]
      scaleChannel_close [OF d(5,6) f] zero one
    by blast
qed

theorem darkenHex_scales_channels_witness:
  "darkenHex (Str (utf16 ''#FF6600'')) (lit (5 / 10)) = Inr (utf16 ''#803300'')
   \<and> darkenHex (Str (utf16 ''#FF6600'')) (lit 0) = Inr (utf16 ''#000000'')
   \<and> darkenHex (Str (utf16 ''#FF6600'')) (lit 1) = Inr (utf16 ''#ff6600'')"
proof -
  have h: "isHexDigit (of_char CHR ''F'')" "isHexDigit (of_char CHR ''6'')" "isHexDigit (of_char CHR ''0'')"
    by (simp_all add: isHexDigit_def isRadixDigit_def digitValue_def)
  have v: "hexValue (of_char CHR ''F'') = 15" "hexValue (of_char CHR ''6'') = 6" "hexValue (of_char CHR ''0'') = 0"
    by (simp_all add: hexValue_def digitValue_def)
  have half: "fl (1 / 2) = 1 / 2" using fl_representable [of 1 "- 1"] by (simp add: power_int_minus)
  have l: "lit (5 / 10) = Fin (1 / 2)" "lit 0 = Fin 0" "lit 1 = Fin 1"
    by (simp_all add: lit_Fin half)
  have r: "fl (255 / 2) = 255 / 2" using fl_representable [of 255 "- 1"] by (simp add: power_int_minus)
  have "scaleChannel (of_char CHR ''F'') (of_char CHR ''F'') (1 / 2) = nat 128"
    by (rule scaleChannel_eqI [where c = 255 and y = "255 / 2"]) (simp_all add: v [simplified] r)
  then have s1: "scaleChannel (of_char CHR ''F'') (of_char CHR ''F'') (1 / 2) = 128" by simp
  have "scaleChannel (of_char CHR ''6'') (of_char CHR ''6'') (1 / 2) = nat 51"
    by (rule scaleChannel_eqI [where c = 102 and y = 51]) (simp_all add: v [simplified] fl_numeral)
  then have s2: "scaleChannel (of_char CHR ''6'') (of_char CHR ''6'') (1 / 2) = 51" by simp
  have s3: "scaleChannel (of_char CHR ''0'') (of_char CHR ''0'') (1 / 2) = 0"
    by (simp add: scaleChannel_def v [simplified])
  have t: "toLowerCaseChar (of_char CHR ''F'') = of_char CHR ''f''" "toLowerCaseChar (of_char CHR ''6'') = of_char CHR ''6''"
    "toLowerCaseChar (of_char CHR ''0'') = of_char CHR ''0''"
    by (simp_all add: toLowerCaseChar_def)
  note T = darkenHex_scales_channels [OF h(1) h(1) h(2) h(2) h(3) h(3), of "1 / 2" "[]"]
  have A: "darkenHex (Str (utf16 ''#FF6600'')) (Fin (1 / 2)) = Inr (of_char CHR ''#'' # hexByte 128 @ hexByte 51 @ hexByte 0)"
    and Z: "darkenHex (Str (utf16 ''#FF6600'')) (Fin 0) = Inr (utf16 ''#000000'')"
    and O: "darkenHex (Str (utf16 ''#FF6600'')) (Fin 1) = Inr (of_char CHR ''#'' # map toLowerCaseChar (utf16 ''FF6600''))"
    using T unfolding s1 s2 s3 by simp_all
  show ?thesis
    by (simp only: l A Z O) (simp add: t [simplified] hexByte_def hexDigit_def)
qed

section \<open>darkenHex on malformed colours\<close>

text \<open>
  Claim C5 says that every string that is not \<^verbatim>\<open>#\<close> followed by at least six hexadecimal
  digits is mapped to \<^verbatim>\<open>#003D99\<close>. The function tests the three channels with
  \<^verbatim>\<open>isNaN(parseInt(..., 16))\<close>, and \<^verbatim>\<open>parseInt\<close> accepts a pair whose first character is a
  digit whatever the second is. The colour \<^verbatim>\<open>#1g0000\<close> is therefore darkened, not replaced
  by the default.
\<close>

theorem darkenHex_accepts_malformed:
  "darkenHex (Str (utf16 ''#1g0000'')) (Fin 1) = Inr (utf16 ''#010000'')"
proof -
  have p: "parseInt (utf16 ''1g'') (Some 16) = Fin 1" "parseInt (utf16 ''00'') (Some 16) = Fin 0"
    by (simp_all add: parseInt_def trimStart_def isWhiteSpace_def isRadixDigit_def digitValue_def
        digitsValue_def Let_def)
  have c: "channelHex (Fin 1) = utf16 ''01''" "channelHex (Fin 0) = utf16 ''00''"
    using channelHex_byte [of 1] channelHex_byte [of 0]
    by (simp_all add: hexByte_def hexDigit_def)
  show ?thesis
    by (simp add: startsWith_def Let_def p [simplified] c [simplified] isNaN_def)
qed

section \<open>detectTheme on malformed backgrounds\<close>

text \<open>
  Claim C8 says that every malformed background gives \<open>light\<close>. The function tests the
  background with \<^verbatim>\<open>isNaN(parseInt(bgColor.slice(1), 16))\<close>, which accepts the string as soon
  as it starts with one hexadecimal digit. The background \<^verbatim>\<open>#00000g\<close> is read as the number
  0, that is as black, and the theme is \<open>dark\<close>.
\<close>

theorem detectTheme_malformed_dark:
  "detectTheme \<lparr>primary = Str (utf16 ''#0066FF''), secondary = Str (utf16 ''#003D99''), accent = Str (utf16 ''#66B3FF''),
                 background = Str (utf16 ''#00000g'')\<rparr> = Inr dark"
proof -
  have p: "parseInt (utf16 ''00000g'') (Some 16) = Fin 0"
    by (simp add: parseInt_def trimStart_def isWhiteSpace_def isRadixDigit_def digitValue_def
        digitsValue_def Let_def)
  have c: "\<And>n. channel 0 n = Fin 0"
    by (simp add: channel_def)
  have l: "luminance (Fin 0) (Fin 0) (Fin 0) = Fin 0"
    by (simp add: luminance_def lit_Fin)
  show ?thesis
    by (simp add: startsWith_def Let_def p [simplified] c l isNaN_def)
qed

section \<open>The orchestrators on a page without signals\<close>

lemma docsCssColors_plainPage:
  "docsCssColors (Some plainPage) = \<lparr>css_primary = Null, css_accent = Null\<rparr>"
  by (simp add: docsCssColors_def docsPrimaryVar_def docsAccentVar_def docsButtonBg_def
      plainPage_def js_or_def trim_Nil)

lemma colorResult_plainPage: "colorResult (urlCssSignals (Some plainPage)) = None"
  by (simp add: colorResult_def resolvedPrimary_def resolvedAccent_def urlCssSignals_def
      plainPage_def js_or_def trim_Nil)

lemma extractBrandingWithCssColors_plainPage:
  "extractBrandingWithCssColors originOf (exampleNetwork ''https://logo.clearbit.com/example.com'')
      (Some plainPage) samplePalette ''https://www.example.com/docs'' ''www.example.com'' []
   = Inr (\<lparr>logo = \<lparr>url = ''https://logo.clearbit.com/example.com'', quality = high\<rparr>,
           colors = \<lparr>primary = Str (utf16 ''#336699''), secondary = Str (utf16 ''#FFCC00''),
                      accent = Str (utf16 ''#66B3FF''), background = Str (utf16 ''#1A1A1A'')\<rparr>,
           font = ''system-ui, -apple-system, sans-serif'', theme = dark\<rparr>,
          [], [''https://logo.clearbit.com/example.com''])"
  unfolding extractBrandingWithCssColors_def replaceFirst_www Let_def extractLogoFromCloud_example
    docsCssColors_plainPage docsOverride_no_signal
  by (simp add: detectTheme_dark_example samplePalette_def del: detectTheme.simps)

lemma extractUrlContent_branding_plainPage:
  "extractUrlContent_branding domain None defaultPalette
      (colorResult (urlCssSignals (Some plainPage))) []
   = Inr (\<lparr>logo = \<lparr>url = faviconUrl domain, quality = favicon\<rparr>,
           colors = \<lparr>primary = Str (utf16 ''#0066FF''), secondary = Str (utf16 ''#003D99''),
                      accent = Str (utf16 ''#66B3FF''), background = Str (utf16 ''#FFFFFF'')\<rparr>,
           font = ''system-ui, sans-serif'', theme = light\<rparr>,
          [''Colors extracted from screenshot/CSS analysis. Logo is a low-res favicon fallback.''])"
  unfolding extractUrlContent_branding_def colorResult_plainPage urlOverride_None
  by (simp add: detectTheme_light_example defaultPalette_def del: detectTheme.simps)

section \<open>The background of the palette is the screenshot's\<close>

text \<open>
  Claim C9. The refinement by CSS signals never touches the background. Whenever
  \<open>extractBrandingWithCssColors\<close> returns a result, the background of its palette is the
  background of the palette the screenshot gave, whatever the page. The same holds for
  \<open>extractUrlContent\<close>: when it builds the branding itself, the background is that of its
  own screenshot palette; when it improves the branding \<open>extractBrandingSimple\<close> returned,
  the background is that of the palette \<open>extractBrandingSimple\<close> got from its screenshot.
  This is so for every value of the CSS colours.
\<close>

theorem background_never_overwritten:
  "(extractBrandingWithCssColors originOf net pg screenshotColors pageUrl domain warnings = Inr (res, ws, reqs)
      \<longrightarrow> background (colors res) = background screenshotColors)
   \<and> (extractUrlContent_branding domain None screenshotColors cssColors warnings = Inr (resU, wsU)
      \<longrightarrow> background (colors resU) = background screenshotColors)
   \<and> (extractBrandingSimple originOf net screenshotColors pageUrl hostname warnings = Inr (b, wsS, reqsS)
        \<and> extractUrlContent_branding domain (Some b) otherColors cssColors warningsI = Inr (resI, wsI)
      \<longrightarrow> colors b = screenshotColors \<and> background (colors resI) = background screenshotColors)"
proof (intro conjI impI)
  assume "extractBrandingWithCssColors originOf net pg screenshotColors pageUrl domain warnings = Inr (res, ws, reqs)"
  then have "docsOverride screenshotColors (docsCssColors pg) = Inr (colors res)"
    by (rule extractBrandingWithCssColors_colors)
  then show "background (colors res) = background screenshotColors"
    by (rule docsOverride_frame(1))
next
  assume "extractUrlContent_branding domain None screenshotColors cssColors warnings = Inr (resU, wsU)"
  from extractUrlContent_branding_colors [OF this]
  have "urlOverride screenshotColors cssColors = Inr (colors resU)" by simp
  then show "background (colors resU) = background screenshotColors"
    by (rule urlOverride_background)
next
  assume a: "extractBrandingSimple originOf net screenshotColors pageUrl hostname warnings = Inr (b, wsS, reqsS)
        \<and> extractUrlContent_branding domain (Some b) otherColors cssColors warningsI = Inr (resI, wsI)"
  then show c: "colors b = screenshotColors" by (auto dest: extractBrandingSimple_colors)
  from a extractUrlContent_branding_colors [of domain "Some b" otherColors cssColors warningsI resI wsI]
  have "urlOverride (colors b) cssColors = Inr (colors resI)" by simp
  then have "background (colors resI) = background (colors b)" by (rule urlOverride_background)
  with c show "background (colors resI) = background screenshotColors" by simp
qed

theorem background_never_overwritten_witness:
  "extractBrandingWithCssColors (\<lambda>u. Some ''https://www.example.com'')
      (exampleNetwork ''https://logo.clearbit.com/example.com'')
      (Some variablePage) samplePalette ''https://www.example.com/docs'' ''www.example.com'' []
   = Inr (\<lparr>logo = \<lparr>url = ''https://logo.clearbit.com/example.com'', quality = high\<rparr>,
           colors = \<lparr>primary = Str (utf16 ''#0a141e''), secondary = Str (utf16 ''#060c12''),
                      accent = Str (utf16 ''#66B3FF''), background = Str (utf16 ''#1A1A1A'')\<rparr>,
           font = ''system-ui, -apple-system, sans-serif'', theme = dark\<rparr>,
          [], [''https://logo.clearbit.com/example.com''])
   \<and> extractUrlContent_branding ''www.example.com'' None samplePalette
      (colorResult (urlCssSignals (Some variablePage))) []
   = Inr (\<lparr>logo = \<lparr>url = faviconUrl ''www.example.com'', quality = favicon\<rparr>,
           colors = \<lparr>primary = Str (utf16 ''#0a141e''), secondary = Str (utf16 ''#060c12''),
                      accent = Str (utf16 ''#66B3FF''), background = Str (utf16 ''#1A1A1A'')\<rparr>,
           font = ''system-ui, sans-serif'', theme = dark\<rparr>,
          [''Colors extracted from screenshot/CSS analysis. Logo is a low-res favicon fallback.''])
   \<and> extractBrandingSimple (\<lambda>u. Some ''https://www.example.com'')
      (exampleNetwork ''https://logo.clearbit.com/example.com'')
      samplePalette ''https://www.example.com/docs'' ''www.example.com'' []
   = Inr (\<lparr>logo = \<lparr>url = ''https://logo.clearbit.com/example.com'', quality = high\<rparr>,
           colors = samplePalette,
           font = ''system-ui, -apple-system, sans-serif'', theme = dark\<rparr>,
          [], [''https://logo.clearbit.com/example.com''])
   \<and> extractUrlContent_branding ''www.example.com''
      (Some \<lparr>logo = \<lparr>url = ''https://logo.clearbit.com/example.com'', quality = high\<rparr>,
             colors = samplePalette,
             font = ''system-ui, -apple-system, sans-serif'', theme = dark\<rparr>)
      defaultPalette (colorResult (urlCssSignals (Some variablePage))) []
   = Inr (\<lparr>logo = \<lparr>url = ''https://logo.clearbit.com/example.com'', quality = high\<rparr>,
           colors = \<lparr>primary = Str (utf16 ''#0a141e''), secondary = Str (utf16 ''#060c12''),
                      accent = Str (utf16 ''#66B3FF''), background = Str (utf16 ''#1A1A1A'')\<rparr>,
           font = ''system-ui, -apple-system, sans-serif'', theme = dark\<rparr>, [])
   \<and> background \<lparr>primary = Str (utf16 ''#0a141e''), secondary = Str (utf16 ''#060c12''),
                    accent = Str (utf16 ''#66B3FF''), background = Str (utf16 ''#1A1A1A'')\<rparr>
     = background samplePalette"
proof -
  note e1 = extractBrandingWithCssColors_variablePage [of "\<lambda>u. Some ''https://www.example.com''"]
  note e2 = extractUrlContent_branding_variablePage [of "''www.example.com''"]
  note e3 = extractBrandingSimple_example [of "\<lambda>u. Some ''https://www.example.com''"]
  note e4 = extractUrlContent_branding_improve [of "''www.example.com''"]
  note T = background_never_overwritten [where originOf = "\<lambda>u. Some ''https://www.example.com''"
      and net = "exampleNetwork ''https://logo.clearbit.com/example.com''"
      and pg = "Some variablePage" and screenshotColors = samplePalette
      and pageUrl = "''https://www.example.com/docs''" and domain = "''www.example.com''"
      and hostname = "''www.example.com''" and warnings = "[]" and warningsI = "[]"
      and otherColors = defaultPalette
      and cssColors = "colorResult (urlCssSignals (Some variablePage))"]
  from T [THEN conjunct1, THEN mp, OF e1]
  have b1: "background \<lparr>primary = Str (utf16 ''#0a141e''), secondary = Str (utf16 ''#060c12''),
                    accent = Str (utf16 ''#66B3FF''), background = Str (utf16 ''#1A1A1A'')\<rparr>
     = background samplePalette" by simp
  from T [THEN conjunct2, THEN conjunct1, THEN mp, OF e2]
  have b2: "background \<lparr>primary = Str (utf16 ''#0a141e''), secondary = Str (utf16 ''#060c12''),
                    accent = Str (utf16 ''#66B3FF''), background = Str (utf16 ''#1A1A1A'')\<rparr>
     = background samplePalette" by simp
  from T [THEN conjunct2, THEN conjunct2, THEN mp, OF conjI, OF e3 e4]
  have b3: "background \<lparr>primary = Str (utf16 ''#0a141e''), secondary = Str (utf16 ''#060c12''),
                    accent = Str (utf16 ''#66B3FF''), background = Str (utf16 ''#1A1A1A'')\<rparr>
     = background samplePalette" by simp
  from e1 e2 e3 e4 b1 b2 b3 show ?thesis by (simp only: simp_thms)
qed

section \<open>The priority of the signals for the primary colour\<close>

text \<open>
  Claim C4 says that every call site picks the primary colour by the order CSS variable,
  button background, link colour, screenshot palette. \<open>extractBrandingWithCssColors\<close> collects
  no link colour: on a page whose only signal is a blue link it keeps the primary colour of
  the screenshot palette, where the order of the claim gives the link's colour \<^verbatim>\<open>#0066cc\<close>.
\<close>

theorem docs_primary_ignores_link_colour:
  "docsPrimaryVar linkOnlyPage = Null
   \<and> docsButtonBg linkOnlyPage = Null
   \<and> firstLinkColor (take 10 (querySelectorAll linkOnlyPage ''a'')) = Str (utf16 ''rgb(0, 102, 204)'')
   \<and> rgbaToHex (Str (utf16 ''rgb(0, 102, 204)'')) = Str (utf16 ''#0066cc'')
   \<and> extractBrandingWithCssColors (\<lambda>u. Some ''https://www.example.com'')
        (exampleNetwork ''https://logo.clearbit.com/example.com'')
        (Some linkOnlyPage) samplePalette ''https://www.example.com/docs'' ''www.example.com'' []
     = Inr (\<lparr>logo = \<lparr>url = ''https://logo.clearbit.com/example.com'', quality = high\<rparr>,
             colors = \<lparr>primary = Str (utf16 ''#336699''), secondary = Str (utf16 ''#FFCC00''),
                        accent = Str (utf16 ''#66B3FF''), background = Str (utf16 ''#1A1A1A'')\<rparr>,
             font = ''system-ui, -apple-system, sans-serif'', theme = dark\<rparr>,
            [], [''https://logo.clearbit.com/example.com''])"
proof -
  have "docsPrimaryVar linkOnlyPage = Null" "docsButtonBg linkOnlyPage = Null"
    "firstLinkColor (take 10 (querySelectorAll linkOnlyPage ''a'')) = Str (utf16 ''rgb(0, 102, 204)'')"
    by (simp_all add: docsPrimaryVar_def docsButtonBg_def linkOnlyPage_def trim_Nil)
  then show ?thesis
    using rgbaToHex_example2 extractBrandingWithCssColors_linkOnlyPage [of "\<lambda>u. Some ''https://www.example.com''"]
    by (simp only: simp_thms)
qed

text \<open>
  Claim C4, amended. In \<open>extractUrlContent\<close>, whose CSS colours are the \<open>colorResult\<close> of
  \<open>extractWithPlaywright\<close>, the primary colour of a result is the normalised CSS variable
  if there is one, else the normalised button background if one was observed, else the
  normalised link colour if one was observed, else the primary colour of the palette it
  refines. In \<open>extractBrandingWithCssColors\<close> it is the normalised CSS variable if there is
  one, else the normalised button background if one was observed, else the primary colour
  of the screenshot palette; link colours play no part there.
\<close>

theorem primary_signal_priority:
  "(extractUrlContent_branding domain existing screenshotColors (colorResult (urlCssSignals pg)) warnings
      = Inr (resU, wsU) \<longrightarrow>
    primary (colors resU) =
      (if truthy (sig_primary (urlCssSignals pg)) then rgbaToHex (sig_primary (urlCssSignals pg))
       else if truthy (sig_buttonBg (urlCssSignals pg)) then rgbaToHex (sig_buttonBg (urlCssSignals pg))
       else if truthy (sig_linkColor (urlCssSignals pg)) then rgbaToHex (sig_linkColor (urlCssSignals pg))
       else (case existing of None \<Rightarrow> primary screenshotColors | Some b \<Rightarrow> primary (colors b))))
   \<and> (extractBrandingWithCssColors originOf net (Some p) screenshotColors pageUrl domain warnings
      = Inr (res, ws, reqs) \<longrightarrow>
    primary (colors res) =
      (if truthy (docsPrimaryVar p) then rgbaToHex (docsPrimaryVar p)
       else if truthy (docsButtonBg p) then rgbaToHex (docsButtonBg p)
       else primary screenshotColors))
   \<and> (extractBrandingWithCssColors originOf net None screenshotColors pageUrl domain warnings
      = Inr (resN, wsN, reqsN) \<longrightarrow>
    primary (colors resN) = primary screenshotColors)"
proof (intro conjI impI)
  assume "extractUrlContent_branding domain existing screenshotColors (colorResult (urlCssSignals pg)) warnings
      = Inr (resU, wsU)"
  then have "urlOverride (case existing of None \<Rightarrow> screenshotColors | Some b \<Rightarrow> colors b)
      (colorResult (urlCssSignals pg)) = Inr (colors resU)"
    by (rule extractUrlContent_branding_colors)
  from urlOverride_colorResult(1) [OF this]
  show "primary (colors resU) =
      (if truthy (sig_primary (urlCssSignals pg)) then rgbaToHex (sig_primary (urlCssSignals pg))
       else if truthy (sig_buttonBg (urlCssSignals pg)) then rgbaToHex (sig_buttonBg (urlCssSignals pg))
       else if truthy (sig_linkColor (urlCssSignals pg)) then rgbaToHex (sig_linkColor (urlCssSignals pg))
       else (case existing of None \<Rightarrow> primary screenshotColors | Some b \<Rightarrow> primary (colors b)))"
    by (cases existing) simp_all
next
  assume "extractBrandingWithCssColors originOf net (Some p) screenshotColors pageUrl domain warnings
      = Inr (res, ws, reqs)"
  then have "docsOverride screenshotColors (docsCssColors (Some p)) = Inr (colors res)"
    by (rule extractBrandingWithCssColors_colors)
  then show "primary (colors res) =
      (if truthy (docsPrimaryVar p) then rgbaToHex (docsPrimaryVar p)
       else if truthy (docsButtonBg p) then rgbaToHex (docsButtonBg p)
       else primary screenshotColors)"
    by (rule docsOverride_docsCssColors(1))
next
  assume "extractBrandingWithCssColors originOf net None screenshotColors pageUrl domain warnings
      = Inr (resN, wsN, reqsN)"
  then have "docsOverride screenshotColors (docsCssColors None) = Inr (colors resN)"
    by (rule extractBrandingWithCssColors_colors)
  then show "primary (colors resN) = primary screenshotColors"
    by (simp add: docsOverride_None_page)
qed

theorem primary_signal_priority_witness:
  "extractUrlContent_branding ''www.example.com'' None samplePalette
      (colorResult (urlCssSignals (Some linkOnlyPage))) []
   = Inr (\<lparr>logo = \<lparr>url = faviconUrl ''www.example.com'', quality = favicon\<rparr>,
           colors = \<lparr>primary = Str (utf16 ''#0066cc''), secondary = Str (utf16 ''#003d7a''),
                      accent = Str (utf16 ''#66B3FF''), background = Str (utf16 ''#1A1A1A'')\<rparr>,
           font = ''system-ui, sans-serif'', theme = dark\<rparr>,
          [''Colors extracted from screenshot/CSS analysis. Logo is a low-res favicon fallback.''])
   \<and> primary \<lparr>primary = Str (utf16 ''#0066cc''), secondary = Str (utf16 ''#003d7a''),
                 accent = Str (utf16 ''#66B3FF''), background = Str (utf16 ''#1A1A1A'')\<rparr>
     = rgbaToHex (sig_linkColor (urlCssSignals (Some linkOnlyPage)))
   \<and> extractBrandingWithCssColors (\<lambda>u. Some ''https://www.example.com'')
        (exampleNetwork ''https://logo.clearbit.com/example.com'')
        (Some variablePage) samplePalette ''https://www.example.com/docs'' ''www.example.com'' []
     = Inr (\<lparr>logo = \<lparr>url = ''https://logo.clearbit.com/example.com'', quality = high\<rparr>,
             colors = \<lparr>primary = Str (utf16 ''#0a141e''), secondary = Str (utf16 ''#060c12''),
                        accent = Str (utf16 ''#66B3FF''), background = Str (utf16 ''#1A1A1A'')\<rparr>,
             font = ''system-ui, -apple-system, sans-serif'', theme = dark\<rparr>,
            [], [''https://logo.clearbit.com/example.com''])
   \<and> primary \<lparr>primary = Str (utf16 ''#0a141e''), secondary = Str (utf16 ''#060c12''),
                 accent = Str (utf16 ''#66B3FF''), background = Str (utf16 ''#1A1A1A'')\<rparr>
     = rgbaToHex (docsPrimaryVar variablePage)
   \<and> extractBrandingWithCssColors (\<lambda>u. Some ''https://www.example.com'')
        (exampleNetwork ''https://logo.clearbit.com/example.com'')
        None defaultPalette ''https://www.example.com/docs'' ''www.example.com'' []
     = Inr (\<lparr>logo = \<lparr>url = ''https://logo.clearbit.com/example.com'', quality = high\<rparr>,
             colors = \<lparr>primary = Str (utf16 ''#0066FF''), secondary = Str (utf16 ''#003D99''),
                        accent = Str (utf16 ''#66B3FF''), background = Str (utf16 ''#FFFFFF'')\<rparr>,
             font = ''system-ui, -apple-system, sans-serif'', theme = light\<rparr>,
            [], [''https://logo.clearbit.com/example.com''])
   \<and> primary \<lparr>primary = Str (utf16 ''#0066FF''), secondary = Str (utf16 ''#003D99''),
                 accent = Str (utf16 ''#66B3FF''), background = Str (utf16 ''#FFFFFF'')\<rparr>
     = primary defaultPalette"
proof -
  note e1 = extractUrlContent_branding_linkOnlyPage [of "''www.example.com''"]
  note e2 = extractBrandingWithCssColors_variablePage [of "\<lambda>u. Some ''https://www.example.com''"]
  note e3 = extractBrandingWithCssColors_no_page [of "\<lambda>u. Some ''https://www.example.com''"]
  note T = primary_signal_priority [where originOf = "\<lambda>u. Some ''https://www.example.com''"
      and net = "exampleNetwork ''https://logo.clearbit.com/example.com''"
      and pg = "Some linkOnlyPage" and p = variablePage and existing = None
      and pageUrl = "''https://www.example.com/docs''" and domain = "''www.example.com''"
      and warnings = "[]"]
  have s: "\<not> truthy (sig_primary (urlCssSignals (Some linkOnlyPage)))"
    "\<not> truthy (sig_buttonBg (urlCssSignals (Some linkOnlyPage)))"
    "truthy (sig_linkColor (urlCssSignals (Some linkOnlyPage)))"
    by (simp_all add: urlCssSignals_linkOnlyPage)
  have d: "truthy (docsPrimaryVar variablePage)"
    by (simp add: docsPrimaryVar_def variablePage_def trim_rgb_example [simplified])
  from T [where screenshotColors = samplePalette, THEN conjunct1, THEN mp, OF e1]
  have p1: "primary \<lparr>primary = Str (utf16 ''#0066cc''), secondary = Str (utf16 ''#003d7a''),
                 accent = Str (utf16 ''#66B3FF''), background = Str (utf16 ''#1A1A1A'')\<rparr>
     = rgbaToHex (sig_linkColor (urlCssSignals (Some linkOnlyPage)))"
    by (simp only: s if_True if_False prod.sel BrandingResult.select_convs)
  from T [where screenshotColors = samplePalette, THEN conjunct2, THEN conjunct1, THEN mp, OF e2]
  have p2: "primary \<lparr>primary = Str (utf16 ''#0a141e''), secondary = Str (utf16 ''#060c12''),
                 accent = Str (utf16 ''#66B3FF''), background = Str (utf16 ''#1A1A1A'')\<rparr>
     = rgbaToHex (docsPrimaryVar variablePage)"
    by (simp only: d if_True BrandingResult.select_convs)
  from T [where screenshotColors = defaultPalette, THEN conjunct2, THEN conjunct2, THEN mp, OF e3]
  have p3: "primary \<lparr>primary = Str (utf16 ''#0066FF''), secondary = Str (utf16 ''#003D99''),
                 accent = Str (utf16 ''#66B3FF''), background = Str (utf16 ''#FFFFFF'')\<rparr>
     = primary defaultPalette"
    by (simp only: BrandingResult.select_convs)
  from e1 e2 e3 p1 p2 p3 show ?thesis by (simp only: simp_thms)
qed

section \<open>The secondary colour follows a primary signal\<close>

text \<open>
  Claim C1 says that the secondary colour of every result is the darkened primary colour,
  whatever signals are present. The code recomputes the secondary colour only together with
  the primary colour, that is only when there is a signal for the primary colour. On a page
  without any signal the palette of the screenshot is returned as it is, and its secondary
  colour need not be the darkened primary colour; even for the default palette it is not:
  \<^verbatim>\<open>#003D99\<close> is not the string \<^verbatim>\<open>#003d99\<close> that \<open>darkenHex\<close> returns for \<^verbatim>\<open>#0066FF\<close>.
\<close>

theorem secondary_kept_without_signal:
  "extractBrandingWithCssColors (\<lambda>u. Some ''https://www.example.com'')
      (exampleNetwork ''https://logo.clearbit.com/example.com'')
      (Some plainPage) samplePalette ''https://www.example.com/docs'' ''www.example.com'' []
   = Inr (\<lparr>logo = \<lparr>url = ''https://logo.clearbit.com/example.com'', quality = high\<rparr>,
           colors = \<lparr>primary = Str (utf16 ''#336699''), secondary = Str (utf16 ''#FFCC00''),
                      accent = Str (utf16 ''#66B3FF''), background = Str (utf16 ''#1A1A1A'')\<rparr>,
           font = ''system-ui, -apple-system, sans-serif'', theme = dark\<rparr>,
          [], [''https://logo.clearbit.com/example.com''])
   \<and> darkenHex (Str (utf16 ''#336699'')) darkenFactor = Inr (utf16 ''#1f3d5c'')
   \<and> extractUrlContent_branding ''www.example.com'' None defaultPalette
        (colorResult (urlCssSignals (Some plainPage))) []
     = Inr (\<lparr>logo = \<lparr>url = faviconUrl ''www.example.com'', quality = favicon\<rparr>,
             colors = \<lparr>primary = Str (utf16 ''#0066FF''), secondary = Str (utf16 ''#003D99''),
                        accent = Str (utf16 ''#66B3FF''), background = Str (utf16 ''#FFFFFF'')\<rparr>,
             font = ''system-ui, sans-serif'', theme = light\<rparr>,
            [''Colors extracted from screenshot/CSS analysis. Logo is a low-res favicon fallback.''])
   \<and> darkenHex (Str (utf16 ''#0066FF'')) darkenFactor = Inr (utf16 ''#003d99'')"
  using extractBrandingWithCssColors_plainPage [of "\<lambda>u. Some ''https://www.example.com''"]
    darkenHex_example3 extractUrlContent_branding_plainPage [of "''www.example.com''"]
    darkenHex_example4
  by (simp only: simp_thms)

text \<open>
  Claim C1, amended. If there is a signal for the primary colour (for \<open>extractUrlContent\<close>
  a CSS variable, a button background or a link colour; for \<open>extractBrandingWithCssColors\<close>
  a CSS variable or a button background), the secondary colour of every result is what
  \<open>darkenHex\<close> returns for the primary colour of that result and the factor 0.6. If there is
  none, the primary and the secondary colour of the result are those of the palette that was
  refined.
\<close>

theorem secondary_follows_primary_signal:
  "(extractUrlContent_branding domain existing screenshotColors (colorResult (urlCssSignals pg)) warnings
      = Inr (resU, wsU) \<longrightarrow>
    (if truthy (sig_primary (urlCssSignals pg)) \<or> truthy (sig_buttonBg (urlCssSignals pg))
        \<or> truthy (sig_linkColor (urlCssSignals pg))
     then \<exists>d. darkenHex (primary (colors resU)) darkenFactor = Inr d \<and> secondary (colors resU) = Str d
     else primary (colors resU) = primary (case existing of None \<Rightarrow> screenshotColors | Some b \<Rightarrow> colors b)
        \<and> secondary (colors resU) = secondary (case existing of None \<Rightarrow> screenshotColors | Some b \<Rightarrow> colors b)))
   \<and> (extractBrandingWithCssColors originOf net (Some p) screenshotColors pageUrl domain warnings
      = Inr (res, ws, reqs) \<longrightarrow>
    (if truthy (docsPrimaryVar p) \<or> truthy (docsButtonBg p)
     then \<exists>d. darkenHex (primary (colors res)) darkenFactor = Inr d \<and> secondary (colors res) = Str d
     else primary (colors res) = primary screenshotColors
        \<and> secondary (colors res) = secondary screenshotColors))
   \<and> (extractBrandingWithCssColors originOf net None screenshotColors pageUrl domain warnings
      = Inr (resN, wsN, reqsN) \<longrightarrow>
    primary (colors resN) = primary screenshotColors
      \<and> secondary (colors resN) = secondary screenshotColors)"
proof -
  have U: "if truthy (sig_primary (urlCssSignals pg)) \<or> truthy (sig_buttonBg (urlCssSignals pg))
        \<or> truthy (sig_linkColor (urlCssSignals pg))
     then \<exists>d. darkenHex (primary (colors resU)) darkenFactor = Inr d \<and> secondary (colors resU) = Str d
     else primary (colors resU) = primary (case existing of None \<Rightarrow> screenshotColors | Some b \<Rightarrow> colors b)
        \<and> secondary (colors resU) = secondary (case existing of None \<Rightarrow> screenshotColors | Some b \<Rightarrow> colors b)"
    if "extractUrlContent_branding domain existing screenshotColors (colorResult (urlCssSignals pg)) warnings
      = Inr (resU, wsU)"
  proof -
    from that have "urlOverride (case existing of None \<Rightarrow> screenshotColors | Some b \<Rightarrow> colors b)
        (colorResult (urlCssSignals pg)) = Inr (colors resU)"
      by (rule extractUrlContent_branding_colors)
    from urlOverride_colorResult(2,3) [OF this] show ?thesis by (simp split: if_split)
  qed
  have D: "if truthy (docsPrimaryVar p) \<or> truthy (docsButtonBg p)
     then \<exists>d. darkenHex (primary (colors res)) darkenFactor = Inr d \<and> secondary (colors res) = Str d
     else primary (colors res) = primary screenshotColors
        \<and> secondary (colors res) = secondary screenshotColors"
    if "extractBrandingWithCssColors originOf net (Some p) screenshotColors pageUrl domain warnings
      = Inr (res, ws, reqs)"
  proof -
    from that have "docsOverride screenshotColors (docsCssColors (Some p)) = Inr (colors res)"
      by (rule extractBrandingWithCssColors_colors)
    from docsOverride_docsCssColors(2,3) [OF this] show ?thesis by (simp split: if_split)
  qed
  have N: "primary (colors resN) = primary screenshotColors
      \<and> secondary (colors resN) = secondary screenshotColors"
    if "extractBrandingWithCssColors originOf net None screenshotColors pageUrl domain warnings
      = Inr (resN, wsN, reqsN)"
  proof -
    from that have "docsOverride screenshotColors (docsCssColors None) = Inr (colors resN)"
      by (rule extractBrandingWithCssColors_colors)
    then show ?thesis by (simp add: docsOverride_None_page)
  qed
  show ?thesis
    by (rule conjI [OF impI [OF U] conjI [OF impI [OF D] impI [OF N]]])
qed

theorem secondary_follows_primary_signal_witness:
  "extractUrlContent_branding ''www.example.com'' None samplePalette
      (colorResult (urlCssSignals (Some linkOnlyPage))) []
   = Inr (\<lparr>logo = \<lparr>url = faviconUrl ''www.example.com'', quality = favicon\<rparr>,
           colors = \<lparr>primary = Str (utf16 ''#0066cc''), secondary = Str (utf16 ''#003d7a''),
                      accent = Str (utf16 ''#66B3FF''), background = Str (utf16 ''#1A1A1A'')\<rparr>,
           font = ''system-ui, sans-serif'', theme = dark\<rparr>,
          [''Colors extracted from screenshot/CSS analysis. Logo is a low-res favicon fallback.''])
   \<and> (\<exists>d. darkenHex (Str (utf16 ''#0066cc'')) darkenFactor = Inr d \<and> Str (utf16 ''#003d7a'') = Str d)
   \<and> extractBrandingWithCssColors (\<lambda>u. Some ''https://www.example.com'')
        (exampleNetwork ''https://logo.clearbit.com/example.com'')
        (Some variablePage) samplePalette ''https://www.example.com/docs'' ''www.example.com'' []
     = Inr (\<lparr>logo = \<lparr>url = ''https://logo.clearbit.com/example.com'', quality = high\<rparr>,
             colors = \<lparr>primary = Str (utf16 ''#0a141e''), secondary = Str (utf16 ''#060c12''),
                        accent = Str (utf16 ''#66B3FF''), background = Str (utf16 ''#1A1A1A'')\<rparr>,
             font = ''system-ui, -apple-system, sans-serif'', theme = dark\<rparr>,
            [], [''https://logo.clearbit.com/example.com''])
   \<and> (\<exists>d. darkenHex (Str (utf16 ''#0a141e'')) darkenFactor = Inr d \<and> Str (utf16 ''#060c12'') = Str d)
   \<and> extractBrandingWithCssColors (\<lambda>u. Some ''https://www.example.com'')
        (exampleNetwork ''https://logo.clearbit.com/example.com'')
        None defaultPalette ''https://www.example.com/docs'' ''www.example.com'' []
     = Inr (\<lparr>logo = \<lparr>url = ''https://logo.clearbit.com/example.com'', quality = high\<rparr>,
             colors = \<lparr>primary = Str (utf16 ''#0066FF''), secondary = Str (utf16 ''#003D99''),
                        accent = Str (utf16 ''#66B3FF''), background = Str (utf16 ''#FFFFFF'')\<rparr>,
             font = ''system-ui, -apple-system, sans-serif'', theme = light\<rparr>,
            [], [''https://logo.clearbit.com/example.com''])
   \<and> Str (utf16 ''#003D99'') = secondary defaultPalette"
proof -
  note e1 = extractUrlContent_branding_linkOnlyPage [of "''www.example.com''"]
  note e2 = extractBrandingWithCssColors_variablePage [of "\<lambda>u. Some ''https://www.example.com''"]
  note e3 = extractBrandingWithCssColors_no_page [of "\<lambda>u. Some ''https://www.example.com''"]
  note T = secondary_follows_primary_signal [where originOf = "\<lambda>u. Some ''https://www.example.com''"
      and net = "exampleNetwork ''https://logo.clearbit.com/example.com''"
      and pg = "Some linkOnlyPage" and p = variablePage and existing = None
      and pageUrl = "''https://www.example.com/docs''" and domain = "''www.example.com''"
      and warnings = "[]"]
  have s: "truthy (sig_linkColor (urlCssSignals (Some linkOnlyPage)))"
    by (simp add: urlCssSignals_linkOnlyPage)
  have d: "truthy (docsPrimaryVar variablePage)"
    by (simp add: docsPrimaryVar_def variablePage_def trim_rgb_example [simplified])
  from T [where screenshotColors = samplePalette, THEN conjunct1, THEN mp, OF e1]
  have p1: "\<exists>d. darkenHex (Str (utf16 ''#0066cc'')) darkenFactor = Inr d \<and> Str (utf16 ''#003d7a'') = Str d"
    by (simp only: s simp_thms if_True BrandingResult.select_convs BrandColors.select_convs)
  from T [where screenshotColors = samplePalette, THEN conjunct2, THEN conjunct1, THEN mp, OF e2]
  have p2: "\<exists>d. darkenHex (Str (utf16 ''#0a141e'')) darkenFactor = Inr d \<and> Str (utf16 ''#060c12'') = Str d"
    by (simp only: d simp_thms if_True BrandingResult.select_convs BrandColors.select_convs)
  from T [where screenshotColors = defaultPalette, THEN conjunct2, THEN conjunct2, THEN mp, OF e3]
  have p3: "Str (utf16 ''#003D99'') = secondary defaultPalette"
    by (simp only: BrandingResult.select_convs BrandColors.select_convs)
  from e1 e2 e3 p1 p2 p3 show ?thesis by (simp only: simp_thms)
qed

section \<open>Facts about the table of named colours\<close>

lemma getProperty_absent:
  assumes "k \<notin> fst ` set namedColors" and "k \<notin> fst ` set objectPrototype"
  shows "getProperty namedColors k = Undefined"
proof -
  have "map_of namedColors k = None" using assms(1) by (simp add: map_of_eq_None_iff)
  moreover have "map_of objectPrototype k = None" using assms(2) by (simp add: map_of_eq_None_iff)
  ultimately show ?thesis by (simp add: getProperty_def)
qed

section \<open>Inputs that rgbaToHex maps to its default\<close>



lemma unsupported_examples:
  "trim (utf16 ''oklch(0.7 0.15 200)'') = utf16 ''oklch(0.7 0.15 200)''"
  "trim (utf16 ''lab(50% 40 60)'') = utf16 ''lab(50% 40 60)''"
  "trim (utf16 ''not-a-color'') = utf16 ''not-a-color''"
  by (rule trim_noop; simp add: isWhiteSpace_def)+

lemma unsupported_examples_lower:
  "toLowerCase (utf16 ''oklch(0.7 0.15 200)'') = utf16 ''oklch(0.7 0.15 200)''"
  "toLowerCase (utf16 ''lab(50% 40 60)'') = utf16 ''lab(50% 40 60)''"
  "toLowerCase (utf16 ''not-a-color'') = utf16 ''not-a-color''"
  by (simp_all add: toLowerCase_def toLowerCaseChar_def)

lemma unsupported_examples_regex:
  "re_search rgbRegex (utf16 ''oklch(0.7 0.15 200)'') = None"
  "re_search hslRegex (utf16 ''oklch(0.7 0.15 200)'') = None"
  "re_search rgbRegex (utf16 ''lab(50% 40 60)'') = None"
  "re_search hslRegex (utf16 ''lab(50% 40 60)'') = None"
  "re_search rgbRegex (utf16 ''not-a-color'') = None"
  "re_search hslRegex (utf16 ''not-a-color'') = None"
  by (simp_all add: rgbRegex_def hslRegex_def)


section \<open>Facts about the arithmetic of hslToHex\<close>

text \<open>Every operation on numbers of small magnitude returns the rounded exact result, and
  the rounding moves it by at most \<open>1 / 2 ^ 47\<close>.\<close>

lemma fl_near:
  assumes "\<bar>x\<bar> \<le> 64"
  shows "\<bar>fl x - x\<bar> \<le> 1 / 2 ^ 47"
proof -
  have "\<bar>x\<bar> < 2 powi 7" using assms by simp
  then have "\<bar>fl x - x\<bar> \<le> 2 powi (7 - 54)" by (rule fl_error) simp
  then show ?thesis by (simp add: power_int_minus)
qed

lemma fl_abs_le:
  assumes "\<bar>x\<bar> \<le> b" and "fl b = b"
  shows "\<bar>fl x\<bar> \<le> b"
proof -
  have "- b \<le> x" "x \<le> b" using assms(1) by linarith+
  then have "fl (- b) \<le> fl x" "fl x \<le> fl b" by (simp_all add: fl_mono)
  then show ?thesis by (simp add: fl_minus assms(2) abs_le_iff)
qed

lemma fl_pow2 [simp]: "fl 2 = 2" "fl 16 = 16" "fl 64 = 64"
  by (simp_all add: fl_numeral)

lemma num_small:
  assumes "\<bar>a\<bar> \<le> 64" and "\<bar>b\<bar> \<le> 64"
  shows "num_add (Fin a) (Fin b) = Fin (fl (a + b))"
    and "num_sub (Fin a) (Fin b) = Fin (fl (a - b))"
    and "num_mul (Fin a) (Fin b) = Fin (fl (a * b))"
proof -
  have "\<bar>a + b\<bar> \<le> 128" "\<bar>a - b\<bar> \<le> 128" using assms by linarith+
  then have "\<bar>a + b\<bar> \<le> 2 ^ 64" "\<bar>a - b\<bar> \<le> 2 ^ 64" by simp_all
  moreover have "\<bar>a * b\<bar> \<le> 64 * 64" unfolding abs_mult by (rule mult_mono) (use assms in simp_all)
  then have "\<bar>a * b\<bar> \<le> 2 ^ 64" by simp
  ultimately show "num_add (Fin a) (Fin b) = Fin (fl (a + b))"
    and "num_sub (Fin a) (Fin b) = Fin (fl (a - b))"
    and "num_mul (Fin a) (Fin b) = Fin (fl (a * b))"
    by (simp_all add: num_sub_def roundToDouble_small)
qed

text \<open>A blend of two values of an interval stays in it, up to the excess of the weight.\<close>

lemma blend_bounds:
  fixes p q w :: rat
  assumes "a \<le> p" and "p \<le> b" and "a \<le> q" and "q \<le> b" and "0 \<le> w" and "w \<le> 1 + k" and "0 \<le> k"
  shows "a - k * (b - a) \<le> p + w * (q - p)" and "p + w * (q - p) \<le> b + k * (b - a)"
proof -
  have ba: "0 \<le> b - a" using assms(1,2) by linarith
  then have kba: "0 \<le> k * (b - a)" using assms(7) by simp
  have "a - k * (b - a) \<le> p + w * (q - p) \<and> p + w * (q - p) \<le> b + k * (b - a)"
  proof (cases "w \<le> 1")
    case True
    have "0 \<le> (1 - w) * (p - a)" "0 \<le> w * (q - a)" "0 \<le> (1 - w) * (b - p)" "0 \<le> w * (b - q)"
      using True assms by simp_all
    moreover have "p + w * (q - p) - a = (1 - w) * (p - a) + w * (q - a)" by (simp add: algebra_simps)
    moreover have "b - (p + w * (q - p)) = (1 - w) * (b - p) + w * (b - q)" by (simp add: algebra_simps)
    ultimately show ?thesis using kba by linarith
  next
    case False
    define v where "v = w - 1"
    have v: "0 \<le> v" "v \<le> k" using False assms(6) by (simp_all add: v_def)
    have e: "p + w * (q - p) = q + v * (q - p)" by (simp add: v_def algebra_simps)
    have "\<bar>q - p\<bar> \<le> b - a" using assms(1-4) by linarith
    then have "\<bar>v\<bar> * \<bar>q - p\<bar> \<le> k * (b - a)" using v by (intro mult_mono) simp_all
    then have "\<bar>v * (q - p)\<bar> \<le> k * (b - a)" by (simp only: abs_mult)
    then show ?thesis unfolding e using assms(3,4) by linarith
  qed
  then show "a - k * (b - a) \<le> p + w * (q - p)" and "p + w * (q - p) \<le> b + k * (b - a)" by simp_all
qed

lemma hue2rgb_cases:
  assumes "(if num_less T0 (Fin 0) then num_add T0 (Fin 1) else T0) = T1"
    and "(if num_less (Fin 1) T1 then num_sub T1 (Fin 1) else T1) = T"
  shows "hue2rgb P Q T0 =
    (if num_less T (num_div (Fin 1) (Fin 6))
       then num_add P (num_mul (num_mul (num_sub Q P) (Fin 6)) T)
     else if num_less T (num_div (Fin 1) (Fin 2)) then Q
     else if num_less T (num_div (Fin 2) (Fin 3))
       then num_add P (num_mul (num_mul (num_sub Q P) (num_sub (num_div (Fin 2) (Fin 3)) T)) (Fin 6))
     else P)"
  unfolding hue2rgb_def Let_def assms by (rule refl)

lemma hue_constants:
  "num_div (Fin 1) (Fin 6) = Fin (fl (1 / 6))"
  "num_div (Fin 1) (Fin 2) = Fin (1 / 2)"
  "num_div (Fin 2) (Fin 3) = Fin (fl (2 / 3))"
  "num_div (Fin 1) (Fin 3) = Fin (fl (1 / 3))"
  "lit (5 / 10) = Fin (1 / 2)"
proof -
  have h: "fl (1 / 2) = 1 / 2" using fl_representable [of 1 "- 1"] by (simp add: power_int_minus)
  show "num_div (Fin 1) (Fin 6) = Fin (fl (1 / 6))" "num_div (Fin 2) (Fin 3) = Fin (fl (2 / 3))"
    "num_div (Fin 1) (Fin 3) = Fin (fl (1 / 3))"
    by (simp_all add: roundToDouble_small)
  show "num_div (Fin 1) (Fin 2) = Fin (1 / 2)" by (simp add: roundToDouble_small h)
  show "lit (5 / 10) = Fin (1 / 2)" by (simp add: lit_Fin h)
qed

text \<open>The value of \<open>hue2rgb\<close> for \<open>p\<close> and \<open>q\<close> near the unit interval.\<close>

lemma hue2rgb_range:
  fixes p q t0 :: rat
  assumes p: "- (1 / 2 ^ 40) \<le> p" "p \<le> 1 + 1 / 2 ^ 40"
    and q: "- (1 / 2 ^ 40) \<le> q" "q \<le> 1 + 1 / 2 ^ 40"
    and t0: "- 1 \<le> t0" "t0 \<le> 2"
  shows "\<exists>c. hue2rgb (Fin p) (Fin q) (Fin t0) = Fin c \<and> - (1 / 2 ^ 30) \<le> c \<and> c \<le> 1 + 1 / 2 ^ 30"
proof -
  define e :: rat where "e = 1 / 2 ^ 47"
  define h :: rat where "h = 1 / 2 ^ 40"
  define g :: rat where "g = 1 / 2 ^ 30"
  have eh: "0 < e" "100 * e \<le> h" "h \<le> 1 / 4" "h + 100 * e \<le> g"
    by (simp_all add: e_def h_def g_def)
  note near = fl_near [folded e_def]
  have pb: "- h \<le> p" "p \<le> 1 + h" and qb: "- h \<le> q" "q \<le> 1 + h"
    using p q by (simp_all add: h_def)
  text \<open>the wrapped argument\<close>
  define t1 where "t1 = (if t0 < 0 then fl (t0 + 1) else t0)"
  define t where "t = (if 1 < t1 then fl (t1 - 1) else t1)"
  have a1: "num_add (Fin t0) (Fin 1) = Fin (fl (t0 + 1))"
    by (rule num_small(1)) (use t0 in \<open>simp_all add: abs_le_iff\<close>)
  have T1: "(if num_less (Fin t0) (Fin 0) then num_add (Fin t0) (Fin 1) else Fin t0) = Fin t1"
    by (simp only: num_less.simps a1 t1_def if_distrib [of Fin])
  have t1b: "0 \<le> t1" "t1 \<le> 2" "t0 < 0 \<longrightarrow> t1 \<le> 1"
  proof -
    have "0 \<le> fl (t0 + 1)" "fl (t0 + 1) \<le> 1" if "t0 < 0"
      using fl_between [of 0 "t0 + 1" 1] that t0 by simp_all
    then show "0 \<le> t1" "t1 \<le> 2" "t0 < 0 \<longrightarrow> t1 \<le> 1" using t0 by (auto simp: t1_def)
  qed
  have a2: "num_sub (Fin t1) (Fin 1) = Fin (fl (t1 - 1))"
    by (rule num_small(2)) (use t1b in \<open>simp_all add: abs_le_iff\<close>)
  have T: "(if num_less (Fin 1) (Fin t1) then num_sub (Fin t1) (Fin 1) else Fin t1) = Fin t"
    by (simp only: num_less.simps a2 t_def if_distrib [of Fin])
  have tb: "0 \<le> t" "t \<le> 1"
  proof -
    have "0 \<le> fl (t1 - 1)" "fl (t1 - 1) \<le> 1" if "1 < t1"
      using fl_between [of 0 "t1 - 1" 1] that t1b by simp_all
    then show "0 \<le> t" "t \<le> 1" using t1b by (auto simp: t_def)
  qed
  text \<open>the constants\<close>
  define sixth where "sixth = fl (1 / 6)"
  define twothirds where "twothirds = fl (2 / 3)"
  have s6: "\<bar>sixth - 1 / 6\<bar> \<le> e" unfolding sixth_def by (rule near) simp
  have s23: "\<bar>twothirds - 2 / 3\<bar> \<le> e" unfolding twothirds_def by (rule near) simp
  text \<open>the difference of \<open>q\<close> and \<open>p\<close>\<close>
  define d where "d = fl (q - p)"
  have qp: "\<bar>q - p\<bar> \<le> 2" using pb qb eh by linarith
  have D: "num_sub (Fin q) (Fin p) = Fin d"
    unfolding d_def by (rule num_small(2)) (use pb qb eh in \<open>simp_all add: abs_le_iff\<close>)
  have db: "\<bar>d\<bar> \<le> 2" unfolding d_def using qp by (rule fl_abs_le) simp
  define e1 where "e1 = d - (q - p)"
  have e1: "\<bar>e1\<bar> \<le> e" unfolding e1_def d_def by (rule near) (use qp in linarith)
  note cases = hue2rgb_cases [OF T1 T, of "Fin p" "Fin q", unfolded hue_constants D,
      folded sixth_def twothirds_def]
  have goal: "?thesis" if "hue2rgb (Fin p) (Fin q) (Fin t0) = Fin c" "- g \<le> c" "c \<le> 1 + g" for c
    using that unfolding g_def by blast
  consider (a) "t < sixth" | (b) "\<not> t < sixth" "t < 1 / 2"
    | (c) "\<not> t < sixth" "\<not> t < 1 / 2" "t < twothirds"
    | (d) "\<not> t < sixth" "\<not> t < 1 / 2" "\<not> t < twothirds"
    by blast
  then show ?thesis
  proof cases
    case a
    define m where "m = fl (d * 6)"
    define n where "n = fl (m * t)"
    define c where "c = fl (p + n)"
    have d6: "\<bar>d * 6\<bar> \<le> 16" using db by (simp add: abs_mult)
    have M: "num_mul (Fin d) (Fin 6) = Fin m"
      unfolding m_def by (rule num_small(3)) (use db in simp_all)
    have mb: "\<bar>m\<bar> \<le> 16" unfolding m_def using d6 by (rule fl_abs_le) simp
    have "\<bar>m\<bar> * \<bar>t\<bar> \<le> 16 * 1" by (rule mult_mono) (use mb tb in simp_all)
    then have mt: "\<bar>m * t\<bar> \<le> 16" by (simp add: abs_mult)
    have N: "num_mul (Fin m) (Fin t) = Fin n"
      unfolding n_def by (rule num_small(3)) (use mb tb in simp_all)
    have nb: "\<bar>n\<bar> \<le> 16" unfolding n_def using mt by (rule fl_abs_le) simp
    have C: "num_add (Fin p) (Fin n) = Fin c"
      unfolding c_def by (rule num_small(1)) (use pb nb eh in \<open>simp_all add: abs_le_iff\<close>)
    define e2 where "e2 = m - d * 6"
    define e3 where "e3 = n - m * t"
    define e4 where "e4 = c - (p + n)"
    have e2: "\<bar>e2\<bar> \<le> e" unfolding e2_def m_def by (rule near) (use d6 in linarith)
    have e3: "\<bar>e3\<bar> \<le> e" unfolding e3_def n_def by (rule near) (use mt in linarith)
    have e4: "\<bar>e4\<bar> \<le> e" unfolding e4_def c_def by (rule near) (use pb nb eh in linarith)
    define x1 where "x1 = e1 * t"
    define x2 where "x2 = e2 * t"
    have "\<bar>e1\<bar> * \<bar>t\<bar> \<le> e * 1" by (rule mult_mono) (use e1 tb eh in simp_all)
    then have x1: "\<bar>x1\<bar> \<le> e" by (simp add: x1_def abs_mult)
    have "\<bar>e2\<bar> * \<bar>t\<bar> \<le> e * 1" by (rule mult_mono) (use e2 tb eh in simp_all)
    then have x2: "\<bar>x2\<bar> \<le> e" by (simp add: x2_def abs_mult)
    define w where "w = 6 * t"
    have ceq: "c = (p + w * (q - p)) + (6 * x1 + x2 + e3 + e4)"
      by (simp add: e1_def e2_def e3_def e4_def x1_def x2_def w_def algebra_simps)
    have w: "0 \<le> w" "w \<le> 1 + 6 * e" using tb a s6 unfolding w_def by linarith+
    have k: "0 \<le> 6 * e" using eh by simp
    note B = blend_bounds [OF pb(1) pb(2) qb(1) qb(2) w k]
    have "6 * e * (1 + h - - h) \<le> 24 * e" using eh by simp
    with B have "- h - 24 * e \<le> p + w * (q - p)" "p + w * (q - p) \<le> 1 + h + 24 * e" by linarith+
    with x1 x2 e3 e4 have "- h - 100 * e \<le> c" "c \<le> 1 + h + 100 * e" unfolding ceq by linarith+
    with eh have "- g \<le> c" "c \<le> 1 + g" by linarith+
    moreover have "hue2rgb (Fin p) (Fin q) (Fin t0) = Fin c"
      unfolding cases using a by (simp only: num_less.simps if_True M N C)
    ultimately show ?thesis unfolding g_def by blast
  next
    case b
    have "hue2rgb (Fin p) (Fin q) (Fin t0) = Fin q"
      unfolding cases using b by (simp only: num_less.simps if_True if_False)
    moreover have "- g \<le> q" "q \<le> 1 + g" using qb eh by linarith+
    ultimately show ?thesis unfolding g_def by blast
  next
    case c
    define u where "u = fl (twothirds - t)"
    define m where "m = fl (d * u)"
    define n where "n = fl (m * 6)"
    define r where "r = fl (p + n)"
    have tt: "\<bar>twothirds\<bar> \<le> 1" using s23 eh by linarith
    have ub0: "0 \<le> twothirds - t" "twothirds - t \<le> 1 / 6 + e" using c s23 by linarith+
    have U: "num_sub (Fin twothirds) (Fin t) = Fin u"
      unfolding u_def by (rule num_small(2)) (use tt tb in \<open>simp_all add: abs_le_iff\<close>)
    have "fl 0 \<le> fl (twothirds - t)" using ub0(1) by (rule fl_mono)
    then have u0: "0 \<le> u" by (simp add: u_def)
    define e0 where "e0 = u - (twothirds - t)"
    have e0: "\<bar>e0\<bar> \<le> e" unfolding e0_def u_def by (rule near) (use ub0 eh in linarith)
    have u1: "u \<le> 1 / 6 + 2 * e" using e0 ub0 unfolding e0_def by linarith
    have u2: "\<bar>u\<bar> \<le> 1" using u0 u1 eh by linarith
    have "\<bar>d\<bar> * \<bar>u\<bar> \<le> 2 * 1" by (rule mult_mono) (use db u2 in simp_all)
    then have du: "\<bar>d * u\<bar> \<le> 2" by (simp add: abs_mult)
    have M: "num_mul (Fin d) (Fin u) = Fin m"
      unfolding m_def by (rule num_small(3)) (use db u2 in simp_all)
    have mb: "\<bar>m\<bar> \<le> 2" unfolding m_def using du by (rule fl_abs_le) simp
    have m6: "\<bar>m * 6\<bar> \<le> 16" using mb by (simp add: abs_mult)
    have N: "num_mul (Fin m) (Fin 6) = Fin n"
      unfolding n_def by (rule num_small(3)) (use mb in simp_all)
    have nb: "\<bar>n\<bar> \<le> 16" unfolding n_def using m6 by (rule fl_abs_le) simp
    have R: "num_add (Fin p) (Fin n) = Fin r"
      unfolding r_def by (rule num_small(1)) (use pb nb eh in \<open>simp_all add: abs_le_iff\<close>)
    define e2 where "e2 = m - d * u"
    define e3 where "e3 = n - m * 6"
    define e4 where "e4 = r - (p + n)"
    have e2: "\<bar>e2\<bar> \<le> e" unfolding e2_def m_def by (rule near) (use du in linarith)
    have e3: "\<bar>e3\<bar> \<le> e" unfolding e3_def n_def by (rule near) (use m6 in linarith)
    have e4: "\<bar>e4\<bar> \<le> e" unfolding e4_def r_def by (rule near) (use pb nb eh in linarith)
    define x1 where "x1 = e1 * u"
    have "\<bar>e1\<bar> * \<bar>u\<bar> \<le> e * 1" by (rule mult_mono) (use e1 u2 eh in simp_all)
    then have x1: "\<bar>x1\<bar> \<le> e" by (simp add: x1_def abs_mult)
    define w where "w = 6 * u"
    have req: "r = (p + w * (q - p)) + (6 * x1 + 6 * e2 + e3 + e4)"
      by (simp add: e1_def e2_def e3_def e4_def x1_def w_def algebra_simps)
    have w: "0 \<le> w" "w \<le> 1 + 12 * e" using u0 u1 unfolding w_def by linarith+
    have k: "0 \<le> 12 * e" using eh by simp
    note B = blend_bounds [OF pb(1) pb(2) qb(1) qb(2) w k]
    have "12 * e * (1 + h - - h) \<le> 48 * e" using eh by simp
    with B have "- h - 48 * e \<le> p + w * (q - p)" "p + w * (q - p) \<le> 1 + h + 48 * e" by linarith+
    with x1 e2 e3 e4 have "- h - 100 * e \<le> r" "r \<le> 1 + h + 100 * e" unfolding req by linarith+
    with eh have "- g \<le> r" "r \<le> 1 + g" by linarith+
    moreover have "hue2rgb (Fin p) (Fin q) (Fin t0) = Fin r"
      unfolding cases using c by (simp only: num_less.simps if_True if_False U M N R)
    ultimately show ?thesis unfolding g_def by blast
  next
    case d
    have "hue2rgb (Fin p) (Fin q) (Fin t0) = Fin p"
      unfolding cases using d by (simp only: num_less.simps if_True if_False)
    moreover have "- g \<le> p" "p \<le> 1 + g" using pb eh by linarith+
    ultimately show ?thesis unfolding g_def by blast
  qed
qed

text \<open>The two intermediate values \<open>q\<close> and \<open>p\<close> of \<open>hslToHex\<close> lie near the unit interval.\<close>

lemma hsl_pq:
  fixes S L :: rat
  assumes S: "0 \<le> S" "S \<le> 1" and L: "0 \<le> L" "L \<le> 1"
  shows "\<exists>p q. (if num_less (Fin L) (lit (5 / 10)) then num_mul (Fin L) (num_add (Fin 1) (Fin S))
                 else num_sub (num_add (Fin L) (Fin S)) (num_mul (Fin L) (Fin S))) = Fin q
           \<and> num_sub (num_mul (Fin 2) (Fin L)) (Fin q) = Fin p
           \<and> - (1 / 2 ^ 40) \<le> p \<and> p \<le> 1 + 1 / 2 ^ 40
           \<and> - (1 / 2 ^ 40) \<le> q \<and> q \<le> 1 + 1 / 2 ^ 40"
proof -
  define e :: rat where "e = 1 / 2 ^ 47"
  define h :: rat where "h = 1 / 2 ^ 40"
  have eh: "0 < e" "10 * e \<le> h" "h \<le> 1 / 4" by (simp_all add: e_def h_def)
  note near = fl_near [folded e_def]
  have goal: ?thesis
    if "(if num_less (Fin L) (lit (5 / 10)) then num_mul (Fin L) (num_add (Fin 1) (Fin S))
         else num_sub (num_add (Fin L) (Fin S)) (num_mul (Fin L) (Fin S))) = Fin q"
      and "num_sub (num_mul (Fin 2) (Fin L)) (Fin q) = Fin p"
      and "- h \<le> p" "p \<le> 1 + h" "- h \<le> q" "q \<le> 1 + h" for p q
    using that unfolding h_def by blast
  define l2 where "l2 = fl (2 * L)"
  have L2: "num_mul (Fin 2) (Fin L) = Fin l2"
    unfolding l2_def by (rule num_small(3)) (use L in simp_all)
  define e5 where "e5 = l2 - 2 * L"
  have e5: "\<bar>e5\<bar> \<le> e" unfolding e5_def l2_def by (rule near) (use L in linarith)
  have l2b: "\<bar>l2\<bar> \<le> 2" unfolding l2_def by (rule fl_abs_le) (use L in simp_all)
  show ?thesis
  proof (cases "L < 1 / 2")
    case True
    define a where "a = fl (1 + S)"
    define q where "q = fl (L * a)"
    define p where "p = fl (l2 - q)"
    have A: "num_add (Fin 1) (Fin S) = Fin a"
      unfolding a_def by (rule num_small(1)) (use S in simp_all)
    have ab: "\<bar>a\<bar> \<le> 2" unfolding a_def by (rule fl_abs_le) (use S in simp_all)
    have "\<bar>L\<bar> * \<bar>a\<bar> \<le> 1 * 2" by (rule mult_mono) (use L ab in simp_all)
    then have la: "\<bar>L * a\<bar> \<le> 2" by (simp add: abs_mult)
    have Q: "num_mul (Fin L) (Fin a) = Fin q"
      unfolding q_def by (rule num_small(3)) (use L ab in simp_all)
    have qb: "\<bar>q\<bar> \<le> 2" unfolding q_def using la by (rule fl_abs_le) simp
    have P: "num_sub (Fin l2) (Fin q) = Fin p"
      unfolding p_def by (rule num_small(2)) (use l2b qb in simp_all)
    define e1 where "e1 = a - (1 + S)"
    define e2 where "e2 = q - L * a"
    define e3 where "e3 = p - (l2 - q)"
    have e1: "\<bar>e1\<bar> \<le> e" unfolding e1_def a_def by (rule near) (use S in linarith)
    have e2: "\<bar>e2\<bar> \<le> e" unfolding e2_def q_def by (rule near) (use la in linarith)
    have e3: "\<bar>e3\<bar> \<le> e" unfolding e3_def p_def by (rule near) (use l2b qb in linarith)
    define x1 where "x1 = L * e1"
    have "\<bar>L\<bar> * \<bar>e1\<bar> \<le> 1 * e" by (rule mult_mono) (use L e1 eh in simp_all)
    then have x1: "\<bar>x1\<bar> \<le> e" by (simp add: x1_def abs_mult)
    define y where "y = L * S"
    have y0: "0 \<le> y" using S L by (simp add: y_def)
    have "L * S \<le> L * 1" by (rule mult_left_mono) (use S L in simp_all)
    then have y1: "y \<le> L" by (simp add: y_def)
    have qeq: "q = L + y + (x1 + e2)" by (simp add: e1_def e2_def x1_def y_def algebra_simps)
    have peq: "p = L - y + (e5 - x1 - e2 + e3)"
      by (simp add: e1_def e2_def e3_def e5_def x1_def y_def algebra_simps)
    have "- h \<le> q" "q \<le> 1 + h" unfolding qeq using y0 y1 True L x1 e2 eh by linarith+
    moreover have "- h \<le> p" "p \<le> 1 + h" unfolding peq using y0 y1 L x1 e2 e3 e5 eh by linarith+
    moreover have "(if num_less (Fin L) (lit (5 / 10)) then num_mul (Fin L) (num_add (Fin 1) (Fin S))
         else num_sub (num_add (Fin L) (Fin S)) (num_mul (Fin L) (Fin S))) = Fin q"
      using True by (simp only: hue_constants num_less.simps if_True A Q)
    moreover have "num_sub (num_mul (Fin 2) (Fin L)) (Fin q) = Fin p" by (simp only: L2 P)
    ultimately show ?thesis by (intro goal)
  next
    case False
    define b where "b = fl (L + S)"
    define c where "c = fl (L * S)"
    define q where "q = fl (b - c)"
    define p where "p = fl (l2 - q)"
    have B: "num_add (Fin L) (Fin S) = Fin b"
      unfolding b_def by (rule num_small(1)) (use S L in simp_all)
    have bb: "\<bar>b\<bar> \<le> 2" unfolding b_def by (rule fl_abs_le) (use S L in simp_all)
    have "\<bar>L\<bar> * \<bar>S\<bar> \<le> 1 * 1" by (rule mult_mono) (use L S in simp_all)
    then have ls: "\<bar>L * S\<bar> \<le> 2" by (simp add: abs_mult)
    have C: "num_mul (Fin L) (Fin S) = Fin c"
      unfolding c_def by (rule num_small(3)) (use S L in simp_all)
    have cb: "\<bar>c\<bar> \<le> 2" unfolding c_def using ls by (rule fl_abs_le) simp
    have Q: "num_sub (Fin b) (Fin c) = Fin q"
      unfolding q_def by (rule num_small(2)) (use bb cb in simp_all)
    have "\<bar>b - c\<bar> \<le> 16" using bb cb by linarith
    then have qb: "\<bar>q\<bar> \<le> 16" unfolding q_def by (rule fl_abs_le) simp
    have P: "num_sub (Fin l2) (Fin q) = Fin p"
      unfolding p_def by (rule num_small(2)) (use l2b qb in simp_all)
    define e1 where "e1 = b - (L + S)"
    define e2 where "e2 = c - L * S"
    define e3 where "e3 = q - (b - c)"
    define e4 where "e4 = p - (l2 - q)"
    have e1: "\<bar>e1\<bar> \<le> e" unfolding e1_def b_def by (rule near) (use S L in linarith)
    have e2: "\<bar>e2\<bar> \<le> e" unfolding e2_def c_def by (rule near) (use ls in linarith)
    have e3: "\<bar>e3\<bar> \<le> e" unfolding e3_def q_def by (rule near) (use bb cb in linarith)
    have e4: "\<bar>e4\<bar> \<le> e" unfolding e4_def p_def by (rule near) (use l2b qb in linarith)
    define z where "z = S * (1 - L)"
    have z0: "0 \<le> z" using S L by (simp add: z_def)
    have "S * (1 - L) \<le> 1 * (1 - L)" by (rule mult_right_mono) (use S L in simp_all)
    then have z1: "z \<le> 1 - L" by (simp add: z_def)
    have qeq: "q = L + z + (e1 - e2 + e3)"
      by (simp add: e1_def e2_def e3_def z_def algebra_simps)
    have peq: "p = L - z + (e5 - e1 + e2 - e3 + e4)"
      by (simp add: e1_def e2_def e3_def e4_def e5_def z_def algebra_simps)
    have "- h \<le> q" "q \<le> 1 + h" unfolding qeq using z0 z1 L e1 e2 e3 eh by linarith+
    moreover have "- h \<le> p" "p \<le> 1 + h" unfolding peq using z0 z1 False L e1 e2 e3 e4 e5 eh by linarith+
    moreover have "(if num_less (Fin L) (lit (5 / 10)) then num_mul (Fin L) (num_add (Fin 1) (Fin S))
         else num_sub (num_add (Fin L) (Fin S)) (num_mul (Fin L) (Fin S))) = Fin q"
      using False by (simp only: hue_constants num_less.simps if_False B C Q)
    moreover have "num_sub (num_mul (Fin 2) (Fin L)) (Fin q) = Fin p" by (simp only: L2 P)
    ultimately show ?thesis by (intro goal)
  qed
qed

text \<open>A channel near the unit interval is printed as one byte.\<close>

lemma hexDigit_isHexDigit: "d < 16 \<Longrightarrow> isHexDigit (hexDigit d)"
proof -
  assume "d < 16"
  then have "d = 0 \<or> d = 1 \<or> d = 2 \<or> d = 3 \<or> d = 4 \<or> d = 5 \<or> d = 6 \<or> d = 7 \<or> d = 8
    \<or> d = 9 \<or> d = 10 \<or> d = 11 \<or> d = 12 \<or> d = 13 \<or> d = 14 \<or> d = 15" by presburger
  then have "d \<in> {0, 1, 2, 3, 4, 5, 6, 7, 8, 9, 10, 11, 12, 13, 14, 15}" by simp
  then show ?thesis
    by (auto simp: isHexDigit_def isRadixDigit_def digitValue_def hexDigit_def)
qed

lemma hexByte_hex:
  assumes "n < 256"
  shows "length (hexByte n) = 2" and "list_all isHexDigit (hexByte n)"
proof -
  have "n div 16 < 16" "n mod 16 < 16" using assms by simp_all
  then show "length (hexByte n) = 2" and "list_all isHexDigit (hexByte n)"
    by (simp_all add: hexByte_def hexDigit_isHexDigit)
qed

lemma isHexColor_bytes:
  assumes "a < 256" and "b < 256" and "c < 256"
  shows "isHexColor (of_char CHR ''#'' # hexByte a @ hexByte b @ hexByte c)"
  using hexByte_hex [OF assms(1)] hexByte_hex [OF assms(2)] hexByte_hex [OF assms(3)]
  by (simp add: isHexColor_def)

lemma channel_times_255:
  fixes c :: rat
  assumes "- (1 / 2 ^ 30) \<le> c" and "c \<le> 1 + 1 / 2 ^ 30"
  shows "\<exists>n < 256. channelHex (num_mul (Fin c) (Fin 255)) = hexByte n"
proof -
  define y where "y = fl (c * 255)"
  have lo: "- (1 / 4) \<le> c * 255" using assms(1) by simp
  have hi: "c * 255 \<le> 1021 / 4" using assms(2) by simp
  have flo: "fl (- (1 / 4)) = - (1 / 4 :: rat)"
    using fl_dyadic_fraction [of 2 "- 1"] by simp
  have fhi: "fl (1021 / 4) = (1021 / 4 :: rat)"
    using fl_dyadic_fraction [of 2 1021] by simp
  have yb: "- (1 / 4) \<le> y" "y \<le> 1021 / 4"
    unfolding y_def by (rule fl_between [OF lo hi flo fhi])+
  have "\<bar>c * 255\<bar> \<le> 2 ^ 64" using lo hi by simp
  then have M: "num_mul (Fin c) (Fin 255) = Fin y" by (simp add: y_def roundToDouble_small)
  have "channelHex (Fin y) = hexByte (nat \<lfloor>y + 1 / 2\<rfloor>)"
    by (rule channelHex_byte) (use yb in linarith)+
  moreover have "nat \<lfloor>y + 1 / 2\<rfloor> < 256"
  proof -
    have "y + 1 / 2 < of_int 256" using yb by simp
    then have "\<lfloor>y + 1 / 2\<rfloor> < 256" by (simp only: floor_less_iff)
    then show ?thesis by linarith
  qed
  ultimately show ?thesis unfolding M by blast
qed

lemma hslToHex_isHexColor:
  fixes H S L :: rat
  assumes H: "0 \<le> H" "H \<le> 1" and S: "0 \<le> S" "S \<le> 1" and L: "0 \<le> L" "L \<le> 1"
  shows "isHexColor (hslToHex (Fin H) (Fin S) (Fin L))"
proof -
  have fin: "isHexColor (of_char CHR ''#'' # concat (map (\<lambda>c. channelHex (num_mul c (Fin 255))) [Fin r, Fin g, Fin b]))"
    if rgb: "- (1 / 2 ^ 30) \<le> r" "r \<le> 1 + 1 / 2 ^ 30" "- (1 / 2 ^ 30) \<le> g" "g \<le> 1 + 1 / 2 ^ 30"
      "- (1 / 2 ^ 30) \<le> b" "b \<le> 1 + 1 / 2 ^ 30" for r g b :: rat
  proof -
    obtain n1 n2 n3 where n: "n1 < 256" "channelHex (num_mul (Fin r) (Fin 255)) = hexByte n1"
      "n2 < 256" "channelHex (num_mul (Fin g) (Fin 255)) = hexByte n2"
      "n3 < 256" "channelHex (num_mul (Fin b) (Fin 255)) = hexByte n3"
      using channel_times_255 [OF rgb(1,2)] channel_times_255 [OF rgb(3,4)]
        channel_times_255 [OF rgb(5,6)] by blast
    show ?thesis using isHexColor_bytes [OF n(1,3,5)] by (simp add: n del: num_mul.simps)
  qed
  show ?thesis
  proof (cases "S = 0")
    case True
    have "- (1 / 2 ^ 30) \<le> L" "L \<le> 1 + 1 / 2 ^ 30" using L by simp_all
    from fin [OF this this this] show ?thesis
      by (simp add: hslToHex_def True del: num_mul.simps)
  next
    case False
    obtain p q where pq:
      "(if num_less (Fin L) (lit (5 / 10)) then num_mul (Fin L) (num_add (Fin 1) (Fin S))
         else num_sub (num_add (Fin L) (Fin S)) (num_mul (Fin L) (Fin S))) = Fin q"
      "num_sub (num_mul (Fin 2) (Fin L)) (Fin q) = Fin p"
      "- (1 / 2 ^ 40) \<le> p" "p \<le> 1 + 1 / 2 ^ 40" "- (1 / 2 ^ 40) \<le> q" "q \<le> 1 + 1 / 2 ^ 40"
      using hsl_pq [OF S L] by blast
    define third where "third = fl (1 / 3)"
    have tb: "1 / 4 \<le> third" "third \<le> 1 / 2"
    proof -
      have "fl (1 / 4) = (1 / 4 :: rat)" using fl_dyadic_fraction [of 2 1] by simp
      moreover have "fl (1 / 2) = (1 / 2 :: rat)" using fl_dyadic_fraction [of 1 1] by simp
      ultimately show "1 / 4 \<le> third" "third \<le> 1 / 2"
        unfolding third_def using fl_between [of "1 / 4" "1 / 3" "1 / 2"] by simp_all
    qed
    define ta where "ta = fl (H + third)"
    define tc where "tc = fl (H - third)"
    have TA: "num_add (Fin H) (Fin third) = Fin ta"
      unfolding ta_def by (rule num_small(1)) (use H tb in simp_all)
    have TC: "num_sub (Fin H) (Fin third) = Fin tc"
      unfolding tc_def by (rule num_small(2)) (use H tb in simp_all)
    have tab: "- 1 \<le> ta" "ta \<le> 2"
      unfolding ta_def using fl_between [of "- 1" "H + third" 2] H tb by (simp_all add: fl_minus)
    have tcb: "- 1 \<le> tc" "tc \<le> 2"
      unfolding tc_def using fl_between [of "- 1" "H - third" 2] H tb by (simp_all add: fl_minus)
    have hb: "- 1 \<le> H" "H \<le> 2" using H by simp_all
    obtain r where r: "hue2rgb (Fin p) (Fin q) (Fin ta) = Fin r" "- (1 / 2 ^ 30) \<le> r" "r \<le> 1 + 1 / 2 ^ 30"
      using hue2rgb_range [OF pq(3-6) tab] by blast
    obtain g where g: "hue2rgb (Fin p) (Fin q) (Fin H) = Fin g" "- (1 / 2 ^ 30) \<le> g" "g \<le> 1 + 1 / 2 ^ 30"
      using hue2rgb_range [OF pq(3-6) hb] by blast
    obtain b where b: "hue2rgb (Fin p) (Fin q) (Fin tc) = Fin b" "- (1 / 2 ^ 30) \<le> b" "b \<le> 1 + 1 / 2 ^ 30"
      using hue2rgb_range [OF pq(3-6) tcb] by blast
    have "hslToHex (Fin H) (Fin S) (Fin L) =
       of_char CHR ''#'' # concat (map (\<lambda>c. channelHex (num_mul c (Fin 255))) [Fin r, Fin g, Fin b])"
      unfolding hslToHex_def Let_def pq(1) pq(2) hue_constants(4) third_def [symmetric] TA TC r(1) g(1) b(1)
      using False by simp
    with fin [OF r(2,3) g(2,3) b(2,3)] show ?thesis by simp
  qed
qed

section \<open>Facts about the matcher\<close>

text \<open>A greedy item that takes a whole run, after which the rest of the pattern matches.\<close>

lemma re_match_Star:
  assumes "list_all (inClass k) sp" and "u = [] \<or> \<not> inClass k (hd u)"
    and "re_match r u caps = Some m"
  shows "re_match (Star k # r) (sp @ u) caps = Some m"
  using assms(1)
proof (induction sp)
  case Nil
  from assms(2,3) show ?case by (cases u) simp_all
next
  case (Cons x sp)
  then show ?case by simp
qed

lemma re_match_CapMore:
  assumes "list_all (inClass k) ds" and "u = [] \<or> \<not> inClass k (hd u)"
    and "re_match r u (caps @ [acc @ ds]) = Some m"
  shows "re_match (CapMore k acc # r) (ds @ u) caps = Some m"
  using assms(1,3)
proof (induction ds arbitrary: acc)
  case Nil
  with assms(2) show ?case by (cases u) simp_all
next
  case (Cons x ds)
  from Cons.prems have "re_match r u (caps @ [(acc @ [x]) @ ds]) = Some m" by simp
  with Cons.IH [of "acc @ [x]"] Cons.prems(1)
  have "re_match (CapMore k (acc @ [x]) # r) (ds @ u) caps = Some m" by simp
  with Cons.prems(1) show ?case by simp
qed

lemma re_match_CapPlus:
  assumes "ds \<noteq> []" and "list_all (inClass k) ds" and "u = [] \<or> \<not> inClass k (hd u)"
    and "re_match r u (caps @ [ds]) = Some m"
  shows "re_match (CapPlus k # r) (ds @ u) caps = Some m"
proof -
  obtain x xs where ds: "ds = x # xs" using assms(1) by (cases ds) auto
  have "re_match (CapMore k [x] # r) (xs @ u) caps = Some m"
    using assms(2,3,4) by (intro re_match_CapMore) (simp_all add: ds)
  then show ?thesis using assms(2) by (simp add: ds)
qed

lemma re_match_Opt:
  assumes "a = [] \<or> a = [c]" and "u = [] \<or> hd u \<noteq> c" and "re_match r u caps = Some m"
  shows "re_match (Opt c # r) (a @ u) caps = Some m"
proof (cases "a = []")
  case True
  with assms(2,3) show ?thesis by (cases u) simp_all
next
  case False
  with assms(1) have "a = [c]" by simp
  with assms(3) show ?thesis by simp
qed

lemma re_search_match:
  "re_match r s [] = Some m \<Longrightarrow> re_search r s = Some m"
  by (cases s) simp_all

text \<open>Both patterns need an opening parenthesis.\<close>

lemma re_search_rgb_no_paren:
  "of_char CHR ''('' \<notin> set s \<Longrightarrow> re_search rgbRegex s = None"
proof (induction s)
  case Nil
  then show ?case by (simp add: rgbRegex_def)
next
  case (Cons x s)
  have "re_match rgbRegex (x # s) [] = None"
  proof (cases "\<exists>u. x # s = utf16 ''rgb'' @ u")
    case False
    then show ?thesis by (cases s; cases "tl s"; simp add: rgbRegex_def; auto)
  next
    case True
    then obtain u where u: "x # s = utf16 ''rgb'' @ u" by blast
    with Cons.prems have n: "of_char CHR ''('' \<notin> set u" by auto
    show ?thesis
    proof (cases u)
      case Nil
      with u show ?thesis by (simp add: rgbRegex_def)
    next
      case (Cons y v)
      with n have y: "y \<noteq> of_char CHR ''(''" and v: "v = [] \<or> hd v \<noteq> of_char CHR ''(''" by (auto simp: neq_Nil_conv)
      from v have "re_match (Lit (of_char CHR ''('') # r) v caps = None" for r caps by (cases v) auto
      with y show ?thesis using u Cons by (simp add: rgbRegex_def)
    qed
  qed
  moreover have "re_search rgbRegex s = None" using Cons by simp
  ultimately show ?case by simp
qed

lemma re_search_hsl_no_paren:
  "of_char CHR ''('' \<notin> set s \<Longrightarrow> re_search hslRegex s = None"
proof (induction s)
  case Nil
  then show ?case by (simp add: hslRegex_def)
next
  case (Cons x s)
  have "re_match hslRegex (x # s) [] = None"
  proof (cases "\<exists>u. x # s = utf16 ''hsl'' @ u")
    case False
    then show ?thesis by (cases s; cases "tl s"; simp add: hslRegex_def; auto)
  next
    case True
    then obtain u where u: "x # s = utf16 ''hsl'' @ u" by blast
    with Cons.prems have n: "of_char CHR ''('' \<notin> set u" by auto
    show ?thesis
    proof (cases u)
      case Nil
      with u show ?thesis by (simp add: hslRegex_def)
    next
      case (Cons y v)
      with n have y: "y \<noteq> of_char CHR ''(''" and v: "v = [] \<or> hd v \<noteq> of_char CHR ''(''" by (auto simp: neq_Nil_conv)
      from v have "re_match (Lit (of_char CHR ''('') # r) v caps = None" for r caps by (cases v) auto
      with y show ?thesis using u Cons by (simp add: hslRegex_def)
    qed
  qed
  moreover have "re_search hslRegex s = None" using Cons by simp
  ultimately show ?case by simp
qed

section \<open>Facts about canonical colours and decimal numbers\<close>

lemma isHexDigit_not_space: "isHexDigit c \<Longrightarrow> \<not> isWhiteSpace c"
  unfolding isHexDigit_def by (rule hexDigit_facts(3))

lemma rgbaToHex_isHexColor:
  assumes "isHexColor x"
  shows "rgbaToHex (Str x) = Str x"
proof -
  from assms obtain ds where x: "x = of_char CHR ''#'' # ds" and l: "length ds = 6" and d: "list_all isHexDigit ds"
    by (cases x) (auto simp: isHexColor_def)
  have ne: "ds \<noteq> []" using l by auto
  then have "isHexDigit (last ds)" using d by (simp add: list_all_iff)
  then have "\<not> isWhiteSpace (last x)" using ne by (simp add: x isHexDigit_not_space)
  moreover have "\<not> isWhiteSpace (hd x)" by (simp add: x isWhiteSpace_def)
  ultimately have t: "trim x = x" by (intro trim_noop) (simp_all add: x)
  have sw: "startsWith (trim x) (utf16 ''#'')" unfolding t by (simp add: x startsWith_def)
  have "rgbaToHex (Str x) = Str (take 7 x)"
    using rgbaToHex_hash [OF sw] unfolding t by (simp add: x l)
  then show ?thesis by (simp add: x l)
qed

lemma normalizesToHex_I:
  "rgbaToHex (Str s) = Str x \<Longrightarrow> isHexColor x \<Longrightarrow> normalizesToHex s"
  by (simp add: normalizesToHex_def rgbaToHex_isHexColor del: rgbaToHex.simps)

lemma trim_nonempty: "trim s \<noteq> [] \<Longrightarrow> s \<noteq> []"
  using trim_Nil by auto

lemma decimalNumber_facts:
  assumes "decimalNumber z"
  shows "z \<noteq> []" and "isRadixDigit 10 (hd z)" and "list_all (inClass DigitOrDot) z"
    and "0 \<le> decimalValue z"
    and "\<bar>decimalValue z\<bar> \<le> 2 ^ 64 \<Longrightarrow> parseFloat z = Fin (fl (decimalValue z))"
proof -
  define ip where "ip = takeWhile (isRadixDigit 10) z"
  define r where "r = dropWhile (isRadixDigit 10) z"
  have z: "z = ip @ r" by (simp add: ip_def r_def)
  have ip: "ip \<noteq> []" and r: "r = [] \<or> (hd r = of_char CHR ''.'' \<and> tl r \<noteq> [] \<and> list_all (isRadixDigit 10) (tl r))"
    using assms by (simp_all add: decimalNumber_def Let_def ip_def r_def)
  have ipd: "list_all (isRadixDigit 10) ip"
    by (simp add: ip_def list_all_iff) (meson set_takeWhileD)
  show "z \<noteq> []" using ip z by simp
  have h: "hd z = hd ip" using ip z by simp
  show hz: "isRadixDigit 10 (hd z)" using ip ipd by (simp add: h list_all_iff)
  have rr: "list_all (inClass DigitOrDot) r"
  proof (cases r)
    case Nil
    then show ?thesis by simp
  next
    case (Cons c t)
    with r show ?thesis by (auto simp: list_all_iff)
  qed
  show "list_all (inClass DigitOrDot) z"
    using ipd rr by (subst z) (auto simp: list_all_iff)
  show "0 \<le> decimalValue z"
    using digitsValue_nonneg [of 10 ip] digitsValue_nonneg [of 10 "tl r"]
    by (simp add: decimalValue_def Let_def ip_def r_def)
  show "parseFloat z = Fin (fl (decimalValue z))" if b: "\<bar>decimalValue z\<bar> \<le> 2 ^ 64"
  proof -
    have ts: "trimStart z = z"
      using decimalDigit_facts(1) [OF hz] \<open>z \<noteq> []\<close> by (cases z) (simp_all add: trimStart_def)
    have fp: "(case r of [] \<Rightarrow> [] | c # u \<Rightarrow> if c = of_char CHR ''.'' then takeWhile (isRadixDigit 10) u else []) = tl r"
    proof (cases r)
      case Nil
      then show ?thesis by simp
    next
      case (Cons c t)
      with r have "c = of_char CHR ''.''" "list_all (isRadixDigit 10) t" by simp_all
      then show ?thesis by (simp add: Cons takeWhile_eq_all_conv list_all_iff)
    qed
    have "parseFloat z = roundToDouble (decimalValue z)"
      unfolding parseFloat_def ts Let_def decimalValue_def ip_def [symmetric] r_def [symmetric] fp
      using ip by simp
    then show ?thesis using b by (simp add: roundToDouble_small)
  qed
qed

text \<open>A parsed percentage or hue, divided by its range, lies in the unit interval.\<close>

lemma parsed_fraction:
  assumes "decimalNumber z" and "decimalValue z \<le> of_nat n" and "0 < n" and "n \<le> 360"
  shows "\<exists>x. num_div (parseFloat z) (Fin (of_nat n)) = Fin x \<and> 0 \<le> x \<and> x \<le> 1"
proof -
  define v where "v = fl (decimalValue z)"
  note f = decimalNumber_facts [OF assms(1)]
  have n: "(of_nat n :: rat) \<le> 360" "(0 :: rat) < of_nat n" using assms(3,4) by simp_all
  have "\<bar>decimalValue z\<bar> \<le> 2 ^ 64" using f(4) assms(2) n by simp
  then have P: "parseFloat z = Fin v" unfolding v_def by (rule f(5))
  have "\<bar>int n\<bar> < 2 ^ 53" using assms(4) by simp
  then have "fl (of_int (int n)) = of_int (int n)" by (rule fl_of_int)
  then have fn: "fl (of_nat n) = of_nat n" by simp
  have vb: "0 \<le> v" "v \<le> of_nat n"
    unfolding v_def using fl_between [OF f(4) assms(2) fl_zero fn] by simp_all
  define x where "x = fl (v / of_nat n)"
  have q: "0 \<le> v / of_nat n" "v / of_nat n \<le> 1" using vb n by simp_all
  have xb: "0 \<le> x" "x \<le> 1" unfolding x_def using fl_between [OF q fl_zero fl_one] by simp_all
  have "\<bar>v / of_nat n\<bar> \<le> 2 ^ 64" using q by simp
  then have "num_div (Fin v) (Fin (of_nat n)) = Fin x"
    using n by (simp add: x_def roundToDouble_small)
  with xb show ?thesis unfolding P by blast
qed

section \<open>Matches of the two patterns on well-formed inputs\<close>

lemma whiteSpace_facts:
  assumes "isWhiteSpace c"
  shows "\<not> isRadixDigit 10 c" and "\<not> inClass Digit c" and "\<not> inClass DigitOrDot c"
    and "c \<noteq> of_char CHR '',''" and "c \<noteq> of_char CHR ''(''" and "c \<noteq> of_char CHR ''%''"
  using assms by (auto simp: isWhiteSpace_def decimalDigit_range)

lemma digitOrDot_facts:
  assumes "inClass DigitOrDot c"
  shows "\<not> isWhiteSpace c" and "c \<noteq> of_char CHR '',''" and "c \<noteq> of_char CHR ''(''" and "c \<noteq> of_char CHR ''%''"
  using assms by (auto simp: isWhiteSpace_def decimalDigit_range)

lemma hd_run:
  assumes "list_all P sp" and "Q c" and "\<And>x. P x \<Longrightarrow> Q x"
  shows "Q (hd (sp @ c # u))"
  using assms by (cases sp) simp_all

lemma re_match_spaces:
  assumes "list_all isWhiteSpace sp" and "u = [] \<or> \<not> isWhiteSpace (hd u)"
    and "re_match r u caps = Some m"
  shows "re_match (Star Space # r) (sp @ u) caps = Some m"
  using assms by (intro re_match_Star) (simp_all add: list_all_iff)

text \<open>White space, a captured run, white space and a literal character.\<close>

lemma re_match_group_lit:
  assumes "list_all isWhiteSpace spA" and "ds \<noteq> []" and "list_all (inClass k) ds"
    and "list_all isWhiteSpace spB" and "\<not> isWhiteSpace c" and "\<not> inClass k c"
    and "\<And>x. inClass k x \<Longrightarrow> \<not> isWhiteSpace x" and "\<And>x. isWhiteSpace x \<Longrightarrow> \<not> inClass k x"
    and "re_match r u (caps @ [ds]) = Some m"
  shows "re_match (Star Space # CapPlus k # Star Space # Lit c # r) (spA @ ds @ spB @ c # u) caps = Some m"
proof -
  have 1: "re_match (Lit c # r) (c # u) (caps @ [ds]) = Some m" using assms(9) by simp
  have 2: "re_match (Star Space # Lit c # r) (spB @ c # u) (caps @ [ds]) = Some m"
    using assms(4) by (rule re_match_spaces) (simp_all add: assms(5) assms(9))
  have "\<not> inClass k (hd (spB @ c # u))"
    using assms(4) assms(6) assms(8) by (rule hd_run)
  then have 3: "re_match (CapPlus k # Star Space # Lit c # r) (ds @ spB @ c # u) caps = Some m"
    using assms(2,3) 2 by (intro re_match_CapPlus) simp_all
  have "\<not> isWhiteSpace (hd (ds @ spB @ c # u))"
    using assms(2,3,7) by (cases ds) simp_all
  then show ?thesis using assms(1) 3 by (intro re_match_spaces) simp_all
qed

text \<open>White space, a captured run and a literal character.\<close>

lemma re_match_group_mark:
  assumes "list_all isWhiteSpace spA" and "ds \<noteq> []" and "list_all (inClass k) ds"
    and "\<not> inClass k c" and "\<And>x. inClass k x \<Longrightarrow> \<not> isWhiteSpace x"
    and "re_match r u (caps @ [ds]) = Some m"
  shows "re_match (Star Space # CapPlus k # Lit c # r) (spA @ ds @ c # u) caps = Some m"
proof -
  have 1: "re_match (Lit c # r) (c # u) (caps @ [ds]) = Some m" using assms(6) by simp
  have 3: "re_match (CapPlus k # Lit c # r) (ds @ c # u) caps = Some m"
    using assms(2,3,4) 1 by (intro re_match_CapPlus) simp_all
  have "\<not> isWhiteSpace (hd (ds @ c # u))"
    using assms(2,3,5) by (cases ds) simp_all
  then show ?thesis using assms(1) 3 by (intro re_match_spaces) simp_all
qed

text \<open>White space and a last captured run.\<close>

lemma re_match_group_end:
  assumes "list_all isWhiteSpace spA" and "ds \<noteq> []" and "list_all (inClass k) ds"
    and "rest = [] \<or> \<not> inClass k (hd rest)" and "\<And>x. inClass k x \<Longrightarrow> \<not> isWhiteSpace x"
  shows "re_match [Star Space, CapPlus k] (spA @ ds @ rest) caps = Some (caps @ [ds])"
proof -
  have 3: "re_match [CapPlus k] (ds @ rest) caps = Some (caps @ [ds])"
    using assms(2,3,4) by (intro re_match_CapPlus) simp_all
  have "\<not> isWhiteSpace (hd (ds @ rest))"
    using assms(2,3,5) by (cases ds) simp_all
  then show ?thesis using assms(1) 3 by (intro re_match_spaces) simp_all
qed

lemma rgbRegex_shape:
  assumes a: "a = [] \<or> a = utf16 ''a''"
    and sp: "list_all isWhiteSpace sp1" "list_all isWhiteSpace sp2" "list_all isWhiteSpace sp3"
      "list_all isWhiteSpace sp4" "list_all isWhiteSpace sp5"
    and r: "r \<noteq> []" "list_all (isRadixDigit 10) r"
    and g: "g \<noteq> []" "list_all (isRadixDigit 10) g"
    and b: "b \<noteq> []" "list_all (isRadixDigit 10) b"
    and rest: "rest = [] \<or> \<not> isRadixDigit 10 (hd rest)"
  shows "re_search rgbRegex
      (utf16 ''rgb'' @ a @ utf16 ''('' @ sp1 @ r @ sp2 @ utf16 '','' @ sp3 @ g @ sp4 @ utf16 '','' @ sp5 @ b @ rest)
    = Some [r, g, b]"
proof -
  have c: "list_all (inClass Digit) r" "list_all (inClass Digit) g" "list_all (inClass Digit) b"
    using r g b by (simp_all add: list_all_iff)
  have ds: "\<And>x. inClass Digit x \<Longrightarrow> \<not> isWhiteSpace x" using decimalDigit_facts(1) by simp
  have sd: "\<And>x. isWhiteSpace x \<Longrightarrow> \<not> inClass Digit x" using whiteSpace_facts(2) by simp
  have 1: "re_match [Star Space, CapPlus Digit] (sp5 @ b @ rest) [r, g] = Some [r, g, b]"
    using re_match_group_end [OF sp(5) b(1) c(3) _ ds, of rest "[r, g]"] rest by simp
  have 2: "re_match (Star Space # CapPlus Digit # Star Space # Lit (of_char CHR '','') # [Star Space, CapPlus Digit])
      (sp3 @ g @ sp4 @ of_char CHR '','' # sp5 @ b @ rest) [r] = Some [r, g, b]"
    by (rule re_match_group_lit [OF sp(3) g(1) c(2) sp(4) _ _ ds sd])
       (simp_all add: isWhiteSpace_def decimalDigit_range 1)
  have 3: "re_match (Star Space # CapPlus Digit # Star Space # Lit (of_char CHR '','') #
        Star Space # CapPlus Digit # Star Space # Lit (of_char CHR '','') # [Star Space, CapPlus Digit])
      (sp1 @ r @ sp2 @ of_char CHR '','' # sp3 @ g @ sp4 @ of_char CHR '','' # sp5 @ b @ rest) [] = Some [r, g, b]"
    by (rule re_match_group_lit [OF sp(1) r(1) c(1) sp(2) _ _ ds sd])
       (simp_all add: isWhiteSpace_def decimalDigit_range 2 [simplified])
  have 4: "re_match (Opt (of_char CHR ''a'') # Lit (of_char CHR ''('') # Star Space # CapPlus Digit # Star Space # Lit (of_char CHR '','') #
        Star Space # CapPlus Digit # Star Space # Lit (of_char CHR '','') # [Star Space, CapPlus Digit])
      (a @ of_char CHR ''('' # sp1 @ r @ sp2 @ of_char CHR '','' # sp3 @ g @ sp4 @ of_char CHR '','' # sp5 @ b @ rest) [] = Some [r, g, b]"
    by (rule re_match_Opt) (use a 3 in simp_all)
  have "re_match rgbRegex
      (utf16 ''rgb'' @ a @ utf16 ''('' @ sp1 @ r @ sp2 @ utf16 '','' @ sp3 @ g @ sp4 @ utf16 '','' @ sp5 @ b @ rest) []
    = Some [r, g, b]"
    using 4 by (simp add: rgbRegex_def)
  then show ?thesis by (rule re_search_match)
qed

lemma hslRegex_shape:
  assumes a: "a = [] \<or> a = utf16 ''a''"
    and sp: "list_all isWhiteSpace sp1" "list_all isWhiteSpace sp2" "list_all isWhiteSpace sp3"
      "list_all isWhiteSpace sp4" "list_all isWhiteSpace sp5"
    and h: "h \<noteq> []" "list_all (inClass DigitOrDot) h"
    and s: "s \<noteq> []" "list_all (inClass DigitOrDot) s"
    and l: "l \<noteq> []" "list_all (inClass DigitOrDot) l"
  shows "re_search hslRegex
      (utf16 ''hsl'' @ a @ utf16 ''('' @ sp1 @ h @ sp2 @ utf16 '','' @ sp3 @ s @ utf16 ''%'' @ sp4 @ utf16 '','' @ sp5 @ l @ utf16 ''%'' @ rest)
    = Some [h, s, l]"
proof -
  have ds: "\<And>x. inClass DigitOrDot x \<Longrightarrow> \<not> isWhiteSpace x" by (rule digitOrDot_facts(1))
  have sd: "\<And>x. isWhiteSpace x \<Longrightarrow> \<not> inClass DigitOrDot x" by (rule whiteSpace_facts(3))
  have n: "\<not> inClass DigitOrDot (of_char CHR ''%'')" "\<not> inClass DigitOrDot (of_char CHR '','')" "\<not> isWhiteSpace (of_char CHR '','')"
    by (simp_all add: isWhiteSpace_def decimalDigit_range)
  have 1: "re_match [Star Space, CapPlus DigitOrDot, Lit (of_char CHR ''%'')]
      (sp5 @ l @ of_char CHR ''%'' # rest) [h, s] = Some [h, s, l]"
    using re_match_group_mark [OF sp(5) l(1,2) n(1) ds, where r = "[]" and u = rest
        and caps = "[h, s]" and m = "[h, s, l]"]
    by simp
  have 2: "re_match (Star Space # Lit (of_char CHR '','') # [Star Space, CapPlus DigitOrDot, Lit (of_char CHR ''%'')])
      (sp4 @ of_char CHR '','' # sp5 @ l @ of_char CHR ''%'' # rest) [h, s] = Some [h, s, l]"
    using sp(4) by (rule re_match_spaces) (simp_all add: isWhiteSpace_def decimalDigit_range 1 [simplified])
  have 3: "re_match (Star Space # CapPlus DigitOrDot # Lit (of_char CHR ''%'') #
        Star Space # Lit (of_char CHR '','') # [Star Space, CapPlus DigitOrDot, Lit (of_char CHR ''%'')])
      (sp3 @ s @ of_char CHR ''%'' # sp4 @ of_char CHR '','' # sp5 @ l @ of_char CHR ''%'' # rest) [h] = Some [h, s, l]"
    using re_match_group_mark [OF sp(3) s(1,2) n(1) ds,
        where r = "Star Space # Lit (of_char CHR '','') # [Star Space, CapPlus DigitOrDot, Lit (of_char CHR ''%'')]"
        and u = "sp4 @ of_char CHR '','' # sp5 @ l @ of_char CHR ''%'' # rest" and caps = "[h]" and m = "[h, s, l]"] 2
    by simp
  have 4: "re_match (Star Space # CapPlus DigitOrDot # Star Space # Lit (of_char CHR '','') #
        Star Space # CapPlus DigitOrDot # Lit (of_char CHR ''%'') #
        Star Space # Lit (of_char CHR '','') # [Star Space, CapPlus DigitOrDot, Lit (of_char CHR ''%'')])
      (sp1 @ h @ sp2 @ of_char CHR '','' # sp3 @ s @ of_char CHR ''%'' # sp4 @ of_char CHR '','' # sp5 @ l @ of_char CHR ''%'' # rest) []
      = Some [h, s, l]"
    using re_match_group_lit [OF sp(1) h(1,2) sp(2) n(3) n(2) ds sd,
        where r = "Star Space # CapPlus DigitOrDot # Lit (of_char CHR ''%'') #
          Star Space # Lit (of_char CHR '','') # [Star Space, CapPlus DigitOrDot, Lit (of_char CHR ''%'')]"
        and u = "sp3 @ s @ of_char CHR ''%'' # sp4 @ of_char CHR '','' # sp5 @ l @ of_char CHR ''%'' # rest"
        and caps = "[]" and m = "[h, s, l]"] 3
    by simp
  have 5: "re_match (Opt (of_char CHR ''a'') # Lit (of_char CHR ''('') # Star Space # CapPlus DigitOrDot # Star Space # Lit (of_char CHR '','') #
        Star Space # CapPlus DigitOrDot # Lit (of_char CHR ''%'') #
        Star Space # Lit (of_char CHR '','') # [Star Space, CapPlus DigitOrDot, Lit (of_char CHR ''%'')])
      (a @ of_char CHR ''('' # sp1 @ h @ sp2 @ of_char CHR '','' # sp3 @ s @ of_char CHR ''%'' # sp4 @ of_char CHR '','' # sp5 @ l @ of_char CHR ''%'' # rest) []
      = Some [h, s, l]"
    by (rule re_match_Opt) (use a 4 in simp_all)
  have "re_match hslRegex
      (utf16 ''hsl'' @ a @ utf16 ''('' @ sp1 @ h @ sp2 @ utf16 '','' @ sp3 @ s @ utf16 ''%'' @ sp4 @ utf16 '','' @ sp5 @ l @ utf16 ''%'' @ rest) []
    = Some [h, s, l]"
    using 5 by (simp add: hslRegex_def)
  then show ?thesis by (rule re_search_match)
qed

text \<open>The \<^verbatim>\<open>rgb\<close> pattern has no match in a well-formed \<^verbatim>\<open>hsl\<close> input.\<close>

lemma rgbRegex_hsl_shape:
  assumes a: "a = [] \<or> a = utf16 ''a''" and "of_char CHR ''('' \<notin> set body"
  shows "re_search rgbRegex (utf16 ''hsl'' @ a @ utf16 ''('' @ body) = None"
proof -
  have "re_search rgbRegex body = None" using assms(2) by (rule re_search_rgb_no_paren)
  moreover have "re_match rgbRegex (of_char CHR ''('' # body) [] = None" by (simp add: rgbRegex_def)
  ultimately have 1: "re_search rgbRegex (of_char CHR ''('' # body) = None" by simp
  have 2: "re_search rgbRegex (a @ of_char CHR ''('' # body) = None"
    using a 1 by (auto simp: rgbRegex_def)
  have "re_match rgbRegex (c # u) [] = None" if "c \<noteq> of_char CHR ''r''" for c u
    using that by (simp add: rgbRegex_def)
  then show ?thesis using 2 by simp
qed

section \<open>Each supported format is normalised\<close>

lemma normalizes_hex:
  assumes "list_all isHexDigit ds" and "length ds = 3 \<or> length ds = 6 \<or> length ds = 8"
    and "trim s = of_char CHR ''#'' # ds"
  shows "normalizesToHex s"
proof -
  have sw: "startsWith (trim s) (utf16 ''#'')" by (simp add: assms(3) startsWith_def)
  note R = rgbaToHex_hash [OF sw, unfolded assms(3)]
  consider "length ds = 3" | "length ds = 6" | "length ds = 8" using assms(2) by blast
  then show ?thesis
  proof cases
    case 1
    then obtain a b c where ds: "ds = [a, b, c]"
      by (auto simp: length_Suc_conv eval_nat_numeral)
    have "\<not> isHighSurrogate a" "\<not> isHighSurrogate b"
      using assms(1) hexDigit_range [of a] hexDigit_range [of b]
      by (auto simp: ds isHexDigit_def isHighSurrogate_def)
    then have "rgbaToHex (Str s) = Str [of_char CHR ''#'', a, a, b, b, c, c]"
      using rgbaToHex_hash3 [of s a b c] assms(3) by (simp add: ds del: rgbaToHex.simps)
    moreover have "isHexColor [of_char CHR ''#'', a, a, b, b, c, c]"
      using assms(1) by (simp add: ds isHexColor_def)
    ultimately show ?thesis by (rule normalizesToHex_I)
  next
    case 2
    have "rgbaToHex (Str s) = Str (of_char CHR ''#'' # ds)" using R 2 by (simp del: rgbaToHex.simps)
    moreover have "isHexColor (of_char CHR ''#'' # ds)" using assms(1) 2 by (simp add: isHexColor_def)
    ultimately show ?thesis by (rule normalizesToHex_I)
  next
    case 3
    have "rgbaToHex (Str s) = Str (of_char CHR ''#'' # take 6 ds)" using R 3 by (simp del: rgbaToHex.simps)
    moreover have "list_all isHexDigit (take 6 ds)"
      using assms(1) by (auto simp: list_all_iff dest: in_set_takeD)
    then have "isHexColor (of_char CHR ''#'' # take 6 ds)" using 3 by (simp add: isHexColor_def)
    ultimately show ?thesis by (rule normalizesToHex_I)
  qed
qed

lemma normalizes_rgb:
  assumes a: "a = [] \<or> a = utf16 ''a''"
    and sp: "list_all isWhiteSpace sp1" "list_all isWhiteSpace sp2" "list_all isWhiteSpace sp3"
      "list_all isWhiteSpace sp4" "list_all isWhiteSpace sp5"
    and ch: "decimalChannel r" "decimalChannel g" "decimalChannel b"
    and rest: "rest = [] \<or> \<not> isRadixDigit 10 (hd rest)"
    and t: "trim s = utf16 ''rgb'' @ a @ utf16 ''('' @ sp1 @ r @ sp2 @ utf16 '','' @ sp3 @ g @ sp4 @ utf16 '','' @ sp5 @ b @ rest"
  shows "rgbaToHex (Str s) = Str (of_char CHR ''#'' # hexByte (nat (digitsValue 10 r))
            @ hexByte (nat (digitsValue 10 g)) @ hexByte (nat (digitsValue 10 b)))"
    and "normalizesToHex s"
proof -
  have r: "r \<noteq> []" "list_all (isRadixDigit 10) r" "digitsValue 10 r \<le> 255"
    and g: "g \<noteq> []" "list_all (isRadixDigit 10) g" "digitsValue 10 g \<le> 255"
    and b: "b \<noteq> []" "list_all (isRadixDigit 10) b" "digitsValue 10 b \<le> 255"
    using ch by (simp_all add: decimalChannel_def)
  have ne: "s \<noteq> []" by (rule trim_nonempty) (simp add: t)
  have nh: "\<not> startsWith (trim s) (utf16 ''#'')" by (simp add: t startsWith_def)
  have m: "re_search rgbRegex (trim s) = Some [r, g, b]"
    unfolding t using a sp r(1,2) g(1,2) b(1,2) rest by (rule rgbRegex_shape)
  show e: "rgbaToHex (Str s) = Str (of_char CHR ''#'' # hexByte (nat (digitsValue 10 r))
            @ hexByte (nat (digitsValue 10 g)) @ hexByte (nat (digitsValue 10 b)))"
    unfolding rgbaToHex_rgb [OF ne nh m]
    by (simp add: rgb_channel [OF r, simplified] rgb_channel [OF g, simplified] rgb_channel [OF b, simplified])
  have "nat (digitsValue 10 r) < 256" "nat (digitsValue 10 g) < 256" "nat (digitsValue 10 b) < 256"
    using r(3) g(3) b(3) by simp_all
  then have "isHexColor (of_char CHR ''#'' # hexByte (nat (digitsValue 10 r))
            @ hexByte (nat (digitsValue 10 g)) @ hexByte (nat (digitsValue 10 b)))"
    by (rule isHexColor_bytes)
  with e show "normalizesToHex s" by (rule normalizesToHex_I)
qed

lemma normalizes_hsl:
  assumes a: "a = [] \<or> a = utf16 ''a''"
    and sp: "list_all isWhiteSpace sp1" "list_all isWhiteSpace sp2" "list_all isWhiteSpace sp3"
      "list_all isWhiteSpace sp4" "list_all isWhiteSpace sp5"
    and hue: "decimalNumber hue" "decimalValue hue \<le> 360"
    and sat: "decimalNumber sat" "decimalValue sat \<le> 100"
    and lig: "decimalNumber lig" "decimalValue lig \<le> 100"
    and rest: "of_char CHR ''('' \<notin> set rest"
    and t: "trim s = utf16 ''hsl'' @ a @ utf16 ''('' @ sp1 @ hue @ sp2 @ utf16 '','' @ sp3 @ sat @ utf16 ''%''
                @ sp4 @ utf16 '','' @ sp5 @ lig @ utf16 ''%'' @ rest"
  shows "normalizesToHex s"
proof -
  note fh = decimalNumber_facts(1,3) [OF hue(1)]
  note fs = decimalNumber_facts(1,3) [OF sat(1)]
  note fl = decimalNumber_facts(1,3) [OF lig(1)]
  have ne: "s \<noteq> []" by (rule trim_nonempty) (simp add: t)
  have nh: "\<not> startsWith (trim s) (utf16 ''#'')" by (simp add: t startsWith_def)
  have np: "of_char CHR ''('' \<notin> set x" if "list_all isWhiteSpace x" for x
    using that whiteSpace_facts(5) by (auto simp: list_all_iff)
  have nd: "of_char CHR ''('' \<notin> set x" if "list_all (inClass DigitOrDot) x" for x
    using that digitOrDot_facts(3) by (auto simp: list_all_iff)
  have "of_char CHR ''('' \<notin> set (sp1 @ hue @ sp2 @ utf16 '','' @ sp3 @ sat @ utf16 ''%''
                @ sp4 @ utf16 '','' @ sp5 @ lig @ utf16 ''%'' @ rest)"
    using np [OF sp(1)] np [OF sp(2)] np [OF sp(3)] np [OF sp(4)] np [OF sp(5)]
      nd [OF fh(2)] nd [OF fs(2)] nd [OF fl(2)] rest by simp
  with a have nr: "re_search rgbRegex (trim s) = None"
    unfolding t by (rule rgbRegex_hsl_shape)
  have m: "re_search hslRegex (trim s) = Some [hue, sat, lig]"
    unfolding t using a sp fh fs fl by (rule hslRegex_shape)
  obtain H where H: "num_div (parseFloat hue) (Fin 360) = Fin H" "0 \<le> H" "H \<le> 1"
    using parsed_fraction [OF hue(1), of 360] hue(2) by auto
  obtain S where S: "num_div (parseFloat sat) (Fin 100) = Fin S" "0 \<le> S" "S \<le> 1"
    using parsed_fraction [OF sat(1), of 100] sat(2) by auto
  obtain L where L: "num_div (parseFloat lig) (Fin 100) = Fin L" "0 \<le> L" "L \<le> 1"
    using parsed_fraction [OF lig(1), of 100] lig(2) by auto
  have "rgbaToHex (Str s) = Str (hslToHex (Fin H) (Fin S) (Fin L))"
    unfolding rgbaToHex_hsl [OF ne nh nr m] by (simp add: H(1) S(1) L(1))
  moreover have "isHexColor (hslToHex (Fin H) (Fin S) (Fin L))"
    using H(2,3) S(2,3) L(2,3) by (rule hslToHex_isHexColor)
  ultimately show ?thesis by (rule normalizesToHex_I)
qed

lemma namedColors_facts:
  assumes "(k, v) \<in> set namedColors"
  shows "k \<noteq> []" and "hd k \<noteq> of_char CHR ''#''" and "of_char CHR ''('' \<notin> set k" and "isHexColor v"
  using assms
  by (auto simp: namedColors_def isHexColor_def isHexDigit_def isRadixDigit_def digitValue_def)

lemma normalizes_named:
  assumes "toLowerCase (trim s) \<in> fst ` set namedColors"
  shows "normalizesToHex s"
proof -
  define k where "k = toLowerCase (trim s)"
  from assms obtain v0 where "(k, v0) \<in> set namedColors" by (auto simp: k_def)
  then obtain v where mv: "map_of namedColors k = Some v" using weak_map_of_SomeI by fastforce
  then have kv: "(k, v) \<in> set namedColors" by (rule map_of_SomeD)
  note f = namedColors_facts [OF kv]
  have tne: "trim s \<noteq> []" using f(1) by (auto simp: k_def toLowerCase_def)
  then have ne: "s \<noteq> []" by (rule trim_nonempty)
  have "hd k = toLowerCaseChar (hd (trim s))" using tne by (simp add: k_def toLowerCase_def hd_map)
  moreover have "toLowerCaseChar (of_char CHR ''#'') = of_char CHR ''#''" by (simp add: toLowerCaseChar_def)
  ultimately have "hd (trim s) \<noteq> of_char CHR ''#''" using f(2) by auto
  then have nh: "\<not> startsWith (trim s) (utf16 ''#'')" using tne by (cases "trim s") (simp_all add: startsWith_def)
  have "toLowerCaseChar (of_char CHR ''('') = of_char CHR ''(''" by (simp add: toLowerCaseChar_def)
  then have "of_char CHR ''('' \<in> set (trim s) \<Longrightarrow> of_char CHR ''('' \<in> set k"
    by (force simp: k_def toLowerCase_def)
  with f(3) have np: "of_char CHR ''('' \<notin> set (trim s)" by blast
  have nr: "re_search rgbRegex (trim s) = None" using np by (rule re_search_rgb_no_paren)
  have nl: "re_search hslRegex (trim s) = None" using np by (rule re_search_hsl_no_paren)
  have vne: "v \<noteq> []" using f(4) by (auto simp: isHexColor_def)
  have "rgbaToHex (Str s) = Str v"
    unfolding rgbaToHex_other [OF ne nh nr nl] k_def [symmetric]
    using vne by (simp add: getProperty_def mv)
  then show ?thesis using f(4) by (rule normalizesToHex_I)
qed

text \<open>An input in another syntax, which starts with no \<^verbatim>\<open>#\<close> and matches neither pattern, is
  looked up in the table: the result is a named colour or the default, and both are canonical
  colours.\<close>

lemma normalizes_unmatched:
  assumes "\<not> startsWith (trim s) (utf16 ''#'')" and "re_search rgbRegex (trim s) = None"
    and "re_search hslRegex (trim s) = None"
    and "toLowerCase (trim s) \<notin> fst ` set objectPrototype"
  shows "normalizesToHex s"
proof (cases "toLowerCase (trim s) \<in> fst ` set namedColors")
  case True
  then show ?thesis by (rule normalizes_named)
next
  case False
  have d: "isHexColor (utf16 ''#0066FF'')"
    by (simp add: isHexColor_def isHexDigit_def isRadixDigit_def digitValue_def)
  have "rgbaToHex (Str s) = Str (utf16 ''#0066FF'')"
  proof (cases "s = []")
    case True
    then show ?thesis by simp
  next
    case ne: False
    have g: "getProperty namedColors (toLowerCase (trim s)) = Undefined"
      using False assms(4) by (rule getProperty_absent)
    show ?thesis
      unfolding rgbaToHex_other [OF ne assms(1,2,3)] by (simp only: g truthy.simps if_False)
  qed
  then show ?thesis using d by (rule normalizesToHex_I)
qed

lemma rgbaToHex_test_examples:
  "rgbaToHex (Str (utf16 ''#abc'')) = Str (utf16 ''#aabbcc'')" "rgbaToHex (Str (utf16 ''#FF6600AA'')) = Str (utf16 ''#FF6600'')"
proof -
  have t: "trim (utf16 ''#abc'') = utf16 ''#abc''" "trim (utf16 ''#FF6600AA'') = utf16 ''#FF6600AA''"
    by (rule trim_noop; simp add: isWhiteSpace_def)+
  show "rgbaToHex (Str (utf16 ''#abc'')) = Str (utf16 ''#aabbcc'')" "rgbaToHex (Str (utf16 ''#FF6600AA'')) = Str (utf16 ''#FF6600'')"
    by (simp_all add: t [simplified] startsWith_def templateElement_def isHighSurrogate_def)
qed

text \<open>What the in-range conditions of the next section exclude: a channel above 255 is
  printed with three digits, and the result is no canonical colour.\<close>

lemma rgbaToHex_channel_above_255:
  "rgbaToHex (Str (utf16 ''rgb(300, 0, 0)'')) = Str (utf16 ''#12c0000'')"
proof -
  have t: "trim (utf16 ''rgb(300, 0, 0)'') = utf16 ''rgb(300, 0, 0)''"
    by (rule trim_noop) (simp_all add: isWhiteSpace_def)
  have m: "re_search rgbRegex (utf16 ''rgb(300, 0, 0)'') = Some [utf16 ''300'', utf16 ''0'', utf16 ''0'']"
    by (simp add: rgbRegex_def isWhiteSpace_def decimalDigit_range)
  have p: "parseInt (utf16 ''300'') None = Fin (of_nat 300)" "parseInt (utf16 ''0'') None = Fin (of_nat 0)"
    using parseInt_decimal [of "utf16 ''300''"] parseInt_decimal [of "utf16 ''0''"]
      roundToDouble_of_nat [of 300] roundToDouble_of_nat [of 0]
    by (simp_all add: decimalDigit_range digitsValue_def digitValue_def)
  have h: "toHex 300 = utf16 ''12c''" "toHex 0 = utf16 ''0''"
    by (simp_all add: toHex_big toHex_small hexDigit_def)
  have "rgbaToHex (Str (utf16 ''rgb(300, 0, 0)'')) =
    Str (of_char CHR ''#'' # concat (map (\<lambda>c. padStart 2 (of_char CHR ''0'') (toString16 (parseInt c None))) [utf16 ''300'', utf16 ''0'', utf16 ''0'']))"
    by (rule rgbaToHex_rgb) (simp_all only: t m, simp_all add: startsWith_def)
  then show ?thesis by (simp add: p [simplified] h [simplified] padStart_def del: rgbaToHex.simps)
qed

section \<open>Supported inputs are normalised to canonical colours\<close>



end
